theory Spec2Isabelle
  imports Complex_Main "HOL-Library.Sublist" "HOL-Library.Multiset" "HOL-Library.AList"
begin

section \<open>The image service (services/geminiService.ts)\<close>

text \<open>
  The service talks to an external provider, sleeps, reads an \<open>AbortSignal\<close> and calls an
  \<open>onRetry\<close> callback. All of this is made explicit:
  \<^item> the module variable \<open>ai\<close>, a logical clock and the observable events live in a
    \<open>world\<close> record that every function takes and returns;
  \<^item> the clock \<open>tick\<close> counts the real suspension points that have completed (a network
    call or a \<open>setTimeout\<close> sleep). JavaScript runs one task at a time, so the user's
    Cancel click can only take effect while the run is suspended in one of them: the signal is
    a tick from which \<open>aborted\<close> reads true;
  \<^item> the provider is a function from the time of the call and the request to its reply;
  \<^item> a thrown exception is the \<open>Inl\<close> of a sum.
  Strings are lists of ASCII characters. \<open>console\<close> output is not modelled.
\<close>

subsection \<open>Data\<close>

text \<open>What \<open>generateContent\<close> may reject with: an \<open>Error\<close> (with its message) or any other
  value (with \<open>String(value)\<close>).\<close>

datatype thrown = ErrorValue string | OtherValue string

text \<open>\<open>modelFailures\<close> is a \<open>Record<string, any>\<close>; its values are \<open>{reason}\<close> or
  \<open>{reason, details}\<close>, where \<open>details\<close> is the \<open>details\<close> of a \<open>QuotaError\<close>.\<close>

datatype failure = Failure (reason: string) (fdetails: "(string \<times> failure) list option")

text \<open>Exceptions that leave the service: \<open>new Error(message)\<close> and
  \<open>new QuotaError(message, { modelFailures })\<close>.\<close>

datatype exn = Error string | QuotaError string "(string \<times> failure) list"

record inlineData =
  mimeType :: string
  data :: string

record candidate =
  parts :: "inlineData option list option"
  finishReason :: "string option"

record response =
  candidates :: "candidate list option"
  blockReason :: "string option"

datatype reply = Rejects thrown | Responds response

record request =
  rq_model :: string
  rq_data :: string
  rq_mimeType :: string
  rq_prompt :: string

text \<open>JavaScript numbers are IEEE 754 binary64 values. Of these only \<open>NaN\<close>, \<open>+Infinity\<close>
  and the finite numbers that are not negative arise here; a finite number is kept as the
  rational it denotes.\<close>

datatype number = NotANumber | PosInfinity | Finite rat

text \<open>A delay in milliseconds, as it is handed to \<open>onRetry\<close> and to \<open>sleep\<close>: \<open>NaN\<close>,
  \<open>Infinity\<close> or a whole number.\<close>

datatype delayMs = NaN | Infinity | Millis nat

text \<open>What the service is seen to do, in order: \<open>editImage\<close> is entered (with its prompt),
  \<open>generateContent\<close> is called for a model, \<open>onRetry\<close> is called, the service sleeps.\<close>

datatype event =
    EditImage string
  | Call string
  | Retry nat delayMs string
  | Sleep delayMs

record world =
  ai :: "string option"
  tick :: nat
  trace :: "event list"

record env =
  backend :: "nat \<Rightarrow> request \<Rightarrow> reply"
  signal :: "nat option"

record gen_result =
  success :: bool
  result :: "string option"

subsection \<open>Helpers on strings\<close>

definition lower :: "char \<Rightarrow> char" where
  "lower c =
     (case map_of (zip ''ABCDEFGHIJKLMNOPQRSTUVWXYZ'' ''abcdefghijklmnopqrstuvwxyz'') c of
        Some l \<Rightarrow> l
      | None \<Rightarrow> c)"

definition is_digit :: "char \<Rightarrow> bool" where
  "is_digit c = (c \<in> set ''0123456789'')"

text \<open>\<open>\s\<close> on ASCII text: space, tab, line feed, vertical tab, form feed, carriage return.\<close>

definition is_space :: "char \<Rightarrow> bool" where
  "is_space c = (c \<in> set [CHR 0x20, CHR 0x09, CHR 0x0A, CHR 0x0B, CHR 0x0C, CHR 0x0D])"

fun starts_with :: "string \<Rightarrow> string \<Rightarrow> bool" where
  "starts_with [] s = True"
| "starts_with (p # ps) [] = False"
| "starts_with (p # ps) (c # cs) = (p = c \<and> starts_with ps cs)"

text \<open>\<open>starts_ci p s\<close>: \<open>s\<close> starts with \<open>p\<close>, ignoring case (\<open>p\<close> is given in lower case).\<close>

fun starts_ci :: "string \<Rightarrow> string \<Rightarrow> bool" where
  "starts_ci [] s = True"
| "starts_ci (p # ps) [] = False"
| "starts_ci (p # ps) (c # cs) = (p = lower c \<and> starts_ci ps cs)"

text \<open>An unanchored regular expression is tried at every position, leftmost first.\<close>

fun first_match :: "(string \<Rightarrow> 'a option) \<Rightarrow> string \<Rightarrow> 'a option" where
  "first_match f [] = f []"
| "first_match f (c # cs) = (case f (c # cs) of Some r \<Rightarrow> Some r | None \<Rightarrow> first_match f cs)"

definition contains_ci :: "string \<Rightarrow> string \<Rightarrow> bool" where
  "contains_ci p s = (first_match (\<lambda>t. if starts_ci p t then Some () else None) s \<noteq> None)"

subsection \<open>setApiKey, isApiKeySet, parseDataUrl, sleep\<close>

definition setApiKey :: "string \<Rightarrow> world \<Rightarrow> exn + world" where
  "setApiKey apiKey w =
     (if apiKey = [] then Inl (Error ''API key is required'')
      else Inr (w\<lparr>ai := Some apiKey\<rparr>))"

definition isApiKeySet :: "world \<Rightarrow> bool" where
  "isApiKeySet w = (ai w \<noteq> None)"

text \<open>\<open>/^data:(.*?);base64,(.*)$/\<close>: \<open>.\<close> matches no line terminator, so both groups are
  free of them, and the lazy first group ends at the first \<open>;base64,\<close>.\<close>

definition is_line_terminator :: "char \<Rightarrow> bool" where
  "is_line_terminator c = (c = CHR 0x0A \<or> c = CHR 0x0D)"

fun split_base64 :: "string \<Rightarrow> string \<Rightarrow> (string \<times> string) option" where
  "split_base64 acc [] = None"
| "split_base64 acc (c # cs) =
     (if starts_with '';base64,'' (c # cs) then Some (acc, drop 8 (c # cs))
      else split_base64 (acc @ [c]) cs)"

definition parseDataUrl :: "string \<Rightarrow> exn + (string \<times> string)" where
  "parseDataUrl dataUrl =
     (if starts_with ''data:'' dataUrl \<and> \<not> list_ex is_line_terminator (drop 5 dataUrl) then
        (case split_base64 [] (drop 5 dataUrl) of
           None \<Rightarrow> Inl (Error ''Invalid data URL format'')
         | Some (mt, b64) \<Rightarrow> Inr (b64, mt))
      else Inl (Error ''Invalid data URL format''))"

definition sleep :: "delayMs \<Rightarrow> world \<Rightarrow> world" where
  "sleep ms w = w\<lparr>tick := Suc (tick w), trace := trace w @ [Sleep ms]\<rparr>"

definition aborted :: "env \<Rightarrow> world \<Rightarrow> bool" where
  "aborted e w = (case signal e of None \<Rightarrow> False | Some t \<Rightarrow> t \<le> tick w)"

definition MODEL_PREFERENCES :: "string list" where
  "MODEL_PREFERENCES =
     [''gemini-2.0-flash-preview-image-generation'',
      ''gemini-2.5-flash-image-preview'',
      ''gemini-2.1-image-preview'',
      ''gemini-1.5-preview-image'']"

subsection \<open>attemptGenerate\<close>

definition MAX_RETRIES :: nat where "MAX_RETRIES = 3"
definition INITIAL_DELAY_MS :: nat where "INITIAL_DELAY_MS = 1000"
definition MAX_DELAY_MS :: nat where "MAX_DELAY_MS = 30000"

text \<open>The validation of a response, lines 108 to 154: either the data URL of the first image
  part or the \<open>Error\<close> thrown.\<close>

definition truthy :: "string option \<Rightarrow> bool" where
  "truthy s = (case s of None \<Rightarrow> False | Some t \<Rightarrow> t \<noteq> [])"

definition first_candidate :: "response \<Rightarrow> candidate option" where
  "first_candidate r = (case candidates r of None \<Rightarrow> None | Some [] \<Rightarrow> None | Some (c # _) \<Rightarrow> Some c)"

definition no_image :: "response \<Rightarrow> candidate option \<Rightarrow> thrown" where
  "no_image r c =
     (if truthy (blockReason r) then
        ErrorValue (''Request blocked by safety policy: '' @ the (blockReason r)
                    @ ''. Please adjust the image or prompt.'')
      else
        (case (case c of None \<Rightarrow> None | Some cd \<Rightarrow> finishReason cd) of
           Some fr \<Rightarrow>
             if fr \<noteq> [] \<and> fr \<noteq> ''STOP'' then
               ErrorValue (''Image generation failed. Reason: '' @ fr @ ''.'')
             else ErrorValue ''API response did not contain an image.''
         | None \<Rightarrow> ErrorValue ''API response did not contain an image.''))"

definition validate :: "response \<Rightarrow> thrown + gen_result" where
  "validate r =
     (case first_candidate r of
        None \<Rightarrow> Inl (no_image r None)
      | Some c \<Rightarrow>
          (case parts c of
             None \<Rightarrow> Inl (no_image r (Some c))
           | Some ps \<Rightarrow>
               if ps = [] then Inl (no_image r (Some c))
               else
                 (case find (\<lambda>p. p \<noteq> None) ps of
                    Some (Some d) \<Rightarrow>
                      Inr \<lparr>success = True,
                           result = Some (''data:'' @ mimeType d @ '';base64,'' @ data d)\<rparr>
                  | _ \<Rightarrow> Inl (ErrorValue ''API response did not contain an image.''))))"

text \<open>The \<open>try\<close> block of one iteration, lines 88 to 154.\<close>

definition generate :: "env \<Rightarrow> string \<Rightarrow> string \<Rightarrow> string \<Rightarrow> string \<Rightarrow> world
    \<Rightarrow> (thrown + gen_result) \<times> world" where
  "generate e model base64Data mt prompt w =
     (if aborted e w then (Inl (ErrorValue ''Request aborted''), w)
      else
        let w1 = w\<lparr>tick := Suc (tick w), trace := trace w @ [Call model]\<rparr> in
        (case backend e (tick w)
                \<lparr>rq_model = model, rq_data = base64Data, rq_mimeType = mt, rq_prompt = prompt\<rparr> of
           Rejects x \<Rightarrow> (Inl x, w1)
         | Responds r \<Rightarrow> (validate r, w1)))"

text \<open>\<open>error instanceof Error ? error.message : String(error)\<close>\<close>

fun message_of :: "thrown \<Rightarrow> string" where
  "message_of (ErrorValue m) = m"
| "message_of (OtherValue s) = s"

text \<open>\<open>/quota|429|Too Many Requests|RESOURCE_EXHAUSTED|Quota exceeded/i.test(msg)\<close>\<close>

definition isQuota :: "string \<Rightarrow> bool" where
  "isQuota msg =
     (contains_ci ''quota'' msg \<or> contains_ci ''429'' msg \<or> contains_ci ''too many requests'' msg
      \<or> contains_ci ''resource_exhausted'' msg \<or> contains_ci ''quota exceeded'' msg)"

text \<open>\<open>/retry in (\d+(\.\d+)?)s/i\<close> tried at one position; the result is group 1. The greedy
  \<open>\d+\<close> takes every digit, and giving one back never helps, since the next character
  would be a digit where \<open>.\<close> or \<open>s\<close> is required.\<close>

definition retry_in_at :: "string \<Rightarrow> string option" where
  "retry_in_at s =
     (if starts_ci ''retry in '' s then
        let r = drop 9 s; ds = takeWhile is_digit r; r1 = dropWhile is_digit r in
        if ds = [] then None
        else if starts_with ''.'' r1 \<and> takeWhile is_digit (drop 1 r1) \<noteq> []
                \<and> starts_ci ''s'' (dropWhile is_digit (drop 1 r1))
          then Some (ds @ ''.'' @ takeWhile is_digit (drop 1 r1))
        else if starts_ci ''s'' r1 then Some ds
        else None
      else None)"

text \<open>\<open>/\"retryDelay\"\s*:\s*\"?(\\?\d+\.?\d*)s\"?/i\<close> tried at one position; the result is
  group 1: an optional backslash, digits, an optional dot, digits.\<close>

definition retry_delay_at :: "string \<Rightarrow> string option" where
  "retry_delay_at s =
     (if starts_ci (CHR 0x22 # ''retrydelay'' @ [CHR 0x22]) s then
        let r = dropWhile is_space (drop 12 s) in
        if starts_with '':'' r then
          let r1 = dropWhile is_space (drop 1 r);
              r2 = (if starts_with [CHR 0x22] r1 then drop 1 r1 else r1);
              bs = (if starts_with [CHR 0x5C] r2 then [CHR 0x5C] else []);
              r3 = drop (length bs) r2;
              ds = takeWhile is_digit r3;
              r4 = dropWhile is_digit r3;
              dot = (if starts_with ''.'' r4 then ''.'' else []);
              r5 = drop (length dot) r4;
              fs = takeWhile is_digit r5;
              r6 = dropWhile is_digit r5
          in if ds \<noteq> [] \<and> starts_ci ''s'' r6 then Some (bs @ ds @ dot @ fs) else None
        else None
      else None)"

text \<open>Lines 167 to 184: the text of the server-suggested delay (group 1 of the first
  expression that matches), if any.\<close>

definition suggestedDelay :: "string \<Rightarrow> string option" where
  "suggestedDelay msg =
     (case first_match retry_in_at msg of
        Some g \<Rightarrow> Some g
      | None \<Rightarrow> first_match retry_delay_at msg)"

text \<open>The nearest binary64 number of a rational that is not negative: 53 significant bits,
  least exponent \<open>-1074\<close>, ties to the even significand, \<open>Infinity\<close> from \<open>2^1024\<close> on.
  \<open>bit_length n\<close> is the number of binary digits of \<open>n\<close> and \<open>binary_exponent x\<close> is
  \<open>\<lfloor>log\<^sub>2 x\<rfloor>\<close> for \<open>x > 0\<close>. The rounded value is \<open>m * 2^s\<close>, which reaches \<open>2^1024\<close> exactly
  when \<open>m\<close> has more than \<open>1024 - s\<close> binary digits.\<close>

function bit_length :: "int \<Rightarrow> int" where
  "bit_length n = (if n \<le> 0 then 0 else 1 + bit_length (n div 2))"
  by pat_completeness auto
termination
  by (relation "measure nat") auto

declare bit_length.simps [simp del]

definition pow2 :: "int \<Rightarrow> rat" where
  "pow2 k = (if 0 \<le> k then 2 ^ nat k else 1 / 2 ^ nat (- k))"

definition binary_exponent :: "rat \<Rightarrow> int" where
  "binary_exponent x = (if 1 \<le> x then bit_length \<lfloor>x\<rfloor> - 1 else - bit_length (\<lceil>1 / x\<rceil> - 1))"

definition round_half_even :: "rat \<Rightarrow> int" where
  "round_half_even y =
     (let f = \<lfloor>y\<rfloor>; r = y - of_int f in
      if r < 1 / 2 then f else if 1 / 2 < r then f + 1 else if even f then f else f + 1)"

definition to_number :: "rat \<Rightarrow> number" where
  "to_number x =
     (if x \<le> 0 then Finite 0
      else
        let s = max (binary_exponent x - 52) (- 1074);
            m = round_half_even (x / pow2 s)
        in if 1024 < s + bit_length m then PosInfinity else Finite (of_int m * pow2 s))"

text \<open>\<open>parseFloat\<close> on the texts that group 1 of the two expressions can be: digits with an
  optional fraction (\<open>12\<close>, \<open>12.5\<close>, \<open>12.\<close>) give the nearest number of the decimal value;
  a text that starts with a backslash has no numeric prefix and gives \<open>NaN\<close>.\<close>

definition digit_value :: "char \<Rightarrow> int" where
  "digit_value c = (case map_of (zip ''0123456789'' [0, 1, 2, 3, 4, 5, 6, 7, 8, 9]) c of
                      Some d \<Rightarrow> d
                    | None \<Rightarrow> 0)"

definition digits_value :: "string \<Rightarrow> int" where
  "digits_value ds = foldl (\<lambda>a c. 10 * a + digit_value c) 0 ds"

definition decimal_value :: "string \<Rightarrow> rat" where
  "decimal_value g =
     (let ds = takeWhile is_digit g; fs = takeWhile is_digit (drop 1 (dropWhile is_digit g))
      in of_int (digits_value (ds @ fs)) / 10 ^ length fs)"

definition parseFloat :: "string \<Rightarrow> number" where
  "parseFloat g = (case g of
                     [] \<Rightarrow> NotANumber
                   | c # cs \<Rightarrow> if is_digit c then to_number (decimal_value g) else NotANumber)"

text \<open>\<open>a * k\<close> for a number \<open>k > 0\<close> that binary64 holds exactly, and \<open>Math.round\<close>, which
  rounds a tie upwards.\<close>

definition times :: "number \<Rightarrow> rat \<Rightarrow> number" where
  "times a k = (case a of Finite x \<Rightarrow> to_number (x * k) | _ \<Rightarrow> a)"

definition Math_round :: "number \<Rightarrow> number" where
  "Math_round a = (case a of Finite x \<Rightarrow> Finite (of_int \<lfloor>x + 1 / 2\<rfloor>) | _ \<Rightarrow> a)"

definition delay_of :: "number \<Rightarrow> delayMs" where
  "delay_of a = (case a of
                   NotANumber \<Rightarrow> NaN
                 | PosInfinity \<Rightarrow> Infinity
                 | Finite x \<Rightarrow> Millis (nat \<lfloor>x\<rfloor>))"

text \<open>\<open>Math.round(parseFloat(match[1]) * 1000)\<close>\<close>

definition suggestedDelayMs :: "string \<Rightarrow> delayMs option" where
  "suggestedDelayMs msg =
     map_option (\<lambda>g. delay_of (Math_round (times (parseFloat g) 1000))) (suggestedDelay msg)"

text \<open>\<open>suggestedDelayMs ?? Math.min(INITIAL_DELAY_MS * 2 ** (attempt - 1), MAX_DELAY_MS)\<close>: only
  \<open>null\<close> gives way to the right-hand side, \<open>NaN\<close> does not.\<close>

definition backoff :: "string \<Rightarrow> nat \<Rightarrow> delayMs" where
  "backoff msg attempt =
     (case suggestedDelayMs msg of
        Some d \<Rightarrow> d
      | None \<Rightarrow> Millis (min (INITIAL_DELAY_MS * 2 ^ (attempt - 1)) MAX_DELAY_MS))"

text \<open>The \<open>while (attempt <= MAX_RETRIES)\<close> loop; \<open>attempt\<close> is the value at the top of the
  iteration.\<close>

function attemptGenerate_loop :: "env \<Rightarrow> string \<Rightarrow> string \<Rightarrow> string \<Rightarrow> string \<Rightarrow> nat \<Rightarrow> world
    \<Rightarrow> (exn + gen_result) \<times> world" where
  "attemptGenerate_loop e model base64Data mt prompt attempt w =
     (if attempt \<le> MAX_RETRIES then
        (case generate e model base64Data mt prompt w of
           (Inr r, w1) \<Rightarrow> (Inr r, w1)
         | (Inl err, w1) \<Rightarrow>
             if isQuota (message_of err) \<and> Suc attempt \<le> MAX_RETRIES then
               let w2 = w1\<lparr>trace := trace w1
                             @ [Retry (Suc attempt) (backoff (message_of err) (Suc attempt)) model]\<rparr>
               in if aborted e w2 then (Inl (Error ''Request aborted''), w2)
                  else
                    let w3 = sleep (backoff (message_of err) (Suc attempt)) w2 in
                    if aborted e w3 then (Inl (Error ''Request aborted''), w3)
                    else attemptGenerate_loop e model base64Data mt prompt (Suc attempt) w3
             else if isQuota (message_of err) then (Inr \<lparr>success = False, result = None\<rparr>, w1)
             else
               (case err of
                  ErrorValue m \<Rightarrow> (Inl (Error (''AI processing failed: '' @ m)), w1)
                | OtherValue _ \<Rightarrow>
                    (Inl (Error ''An unknown error occurred while communicating with the AI.''),
                     w1)))
      else (Inr \<lparr>success = False, result = None\<rparr>, w))"
  by pat_completeness auto
termination
  by (relation "measure (\<lambda>(e, model, base64Data, mt, prompt, attempt, w). Suc MAX_RETRIES - attempt)")
     auto

declare attemptGenerate_loop.simps [simp del]

definition attemptGenerate :: "env \<Rightarrow> string \<Rightarrow> string \<Rightarrow> string \<Rightarrow> string \<Rightarrow> world
    \<Rightarrow> (exn + gen_result) \<times> world" where
  "attemptGenerate e model base64Data mt prompt w =
     attemptGenerate_loop e model base64Data mt prompt 0 w"

subsection \<open>editImage\<close>

definition quota_message :: string where
  "quota_message =
     ''All attempted Gemini models were unavailable due to quota/rate-limits or returned no image. ''
     @ ''Please check your Google Cloud billing, ensure the Generative AI API is enabled, and verify model-specific quotas. See: ''
     @ ''https://ai.google.dev/gemini-api/docs/rate-limits''"

text \<open>The \<open>for (const model of MODEL_PREFERENCES)\<close> loop with the \<open>throw\<close> after it. A
  \<open>throw\<close> inside the \<open>try\<close> is caught by the \<open>catch\<close> below it, which throws it again
  unless it is a \<open>QuotaError\<close>.\<close>

fun try_models :: "env \<Rightarrow> string list \<Rightarrow> string \<Rightarrow> string \<Rightarrow> string \<Rightarrow> (string \<times> failure) list
    \<Rightarrow> world \<Rightarrow> (exn + string) \<times> world" where
  "try_models e [] base64Data mt prompt modelFailures w =
     (Inl (QuotaError quota_message modelFailures), w)"
| "try_models e (model # rest) base64Data mt prompt modelFailures w =
     (case attemptGenerate e model base64Data mt prompt w of
        (Inr attempt, w1) \<Rightarrow>
          if success attempt \<and> truthy (result attempt) then (Inr (the (result attempt)), w1)
          else
            let modelFailures1 =
                  AList.update model (Failure ''quota_or_rate_limit_or_no_result'' None) modelFailures
            in if aborted e w1 then (Inl (Error ''Request aborted''), w1)
               else
                 let w2 = sleep (Millis 250) w1 in
                 if aborted e w2 then (Inl (Error ''Request aborted''), w2)
                 else try_models e rest base64Data mt prompt modelFailures1 w2
      | (Inl (QuotaError m d), w1) \<Rightarrow>
          try_models e rest base64Data mt prompt
            (AList.update model (Failure ''quota'' (Some d)) modelFailures) w1
      | (Inl (Error m), w1) \<Rightarrow> (Inl (Error m), w1))"

definition editImage :: "env \<Rightarrow> string \<Rightarrow> string \<Rightarrow> world \<Rightarrow> (exn + string) \<times> world" where
  "editImage e base64ImageDataUrl prompt w0 =
     (let w = w0\<lparr>trace := trace w0 @ [EditImage prompt]\<rparr> in
      if ai w = None then
        (Inl (Error ''API key not configured. Please set your Gemini API key in the settings.''), w)
      else if aborted e w then (Inl (Error ''Request aborted''), w)
      else
        (case parseDataUrl base64ImageDataUrl of
           Inl err \<Rightarrow> (Inl err, w)
         | Inr (base64Data, mt) \<Rightarrow> try_models e MODEL_PREFERENCES base64Data mt prompt [] w))"

section \<open>The application (App.tsx)\<close>

subsection \<open>Data (types.ts)\<close>

datatype StepType = PREBUILT | CUSTOM

record WorkflowNode =
  node_id :: string
  node_type :: StepType
  prompt :: string
  name :: string
  position :: "int \<times> int"

record Connection =
  conn_id :: string
  fromNodeId :: string
  toNodeId :: string

text \<open>Of the \<open>File\<close> of an uploaded image only the name is read.\<close>

record ImageFile =
  image_id :: string
  file_name :: string
  dataUrl :: string

text \<open>The \<open>id\<close> of an output and the \<open>id\<close> and \<open>timestamp\<close> of a log entry are fresh values
  (\<open>crypto.randomUUID()\<close>, \<open>Date.now()\<close>) that nothing reads; they are left out.\<close>

record OutputImage =
  originalImageId :: string
  originalFileName :: string
  out_dataUrl :: string

datatype status = Success | Failure_status

record OperationLog =
  imageName :: string
  nodeName :: string
  status :: status
  cost :: rat
  credits :: nat

text \<open>The notifications \<open>executeWorkflow\<close> sets, all of type \<open>info\<close>: the retry notice (model,
  attempt, delay), "Workflow cancelled by user." and "Quota/rate-limit reached. See ...".\<close>

datatype notification =
    RetryNotice string nat delayMs
  | CancelledNotice
  | QuotaNotice

text \<open>The React state that \<open>getExecutionOrder\<close> and \<open>executeWorkflow\<close> write. The loading
  message, a text shown while the run is busy and cleared when it ends, is left out.\<close>

record app_state =
  error :: "string option"
  notification :: "notification option"
  outputs :: "OutputImage list"
  logs :: "OperationLog list"
  isLoading :: bool
  retryInfo :: "(string \<times> nat \<times> delayMs) option"
  abortController :: bool

definition SIMULATED_COST_PER_OP :: rat where "SIMULATED_COST_PER_OP = 25 / 10000"
definition SIMULATED_CREDITS_PER_OP :: nat where "SIMULATED_CREDITS_PER_OP = 1"

subsection \<open>getExecutionOrder\<close>

text \<open>\<open>adj\<close>, \<open>inDegree\<close> and \<open>nodeMap\<close> are JavaScript \<open>Map\<close>s: a later \<open>set\<close> of a key
  replaces the earlier value.\<close>

definition add_node :: "WorkflowNode \<Rightarrow> (string \<rightharpoonup> string list) \<times> (string \<rightharpoonup> nat)
    \<Rightarrow> (string \<rightharpoonup> string list) \<times> (string \<rightharpoonup> nat)" where
  "add_node node s = (case s of (adj, inDegree) \<Rightarrow>
     (adj(node_id node \<mapsto> []), inDegree(node_id node \<mapsto> 0)))"

text \<open>\<open>adj.get(conn.fromNodeId)?.push(conn.toNodeId)\<close> does nothing for a source that is no
  node; \<open>inDegree.get(conn.toNodeId) || 0\<close> is 0 for a target that is no node.\<close>

definition add_connection :: "Connection \<Rightarrow> (string \<rightharpoonup> string list) \<times> (string \<rightharpoonup> nat)
    \<Rightarrow> (string \<rightharpoonup> string list) \<times> (string \<rightharpoonup> nat)" where
  "add_connection conn s = (case s of (adj, inDegree) \<Rightarrow>
     ((case adj (fromNodeId conn) of
         None \<Rightarrow> adj
       | Some vs \<Rightarrow> adj(fromNodeId conn \<mapsto> vs @ [toNodeId conn])),
      inDegree(toNodeId conn \<mapsto> (case inDegree (toNodeId conn) of None \<Rightarrow> 0 | Some d \<Rightarrow> d) + 1)))"

definition nodeMap :: "WorkflowNode list \<Rightarrow> (string \<rightharpoonup> WorkflowNode)" where
  "nodeMap nodes = fold (\<lambda>n m. m(node_id n \<mapsto> n)) nodes Map.empty"

text \<open>One turn of \<open>for (const v of adj.get(u) || [])\<close>. \<open>inDegree.get(v) || 1\<close> is 1 when the
  entry is missing or 0.\<close>

definition relax :: "string \<Rightarrow> (string \<rightharpoonup> nat) \<times> string list \<Rightarrow> (string \<rightharpoonup> nat) \<times> string list" where
  "relax v s = (case s of (inDegree, queue) \<Rightarrow>
     (let d = (case inDegree v of None \<Rightarrow> 1 | Some k \<Rightarrow> if k = 0 then 1 else k) - 1
      in (inDegree(v \<mapsto> d), if d = 0 then queue @ [v] else queue)))"

text \<open>The \<open>while (queue.length > 0)\<close> loop. It need not end (two nodes of one id in front of a
  cycle keep it running), so it is a partial function: \<open>None\<close> is the run that never
  returns.\<close>

partial_function (option) kahn_loop :: "(string \<rightharpoonup> WorkflowNode) \<Rightarrow> (string \<rightharpoonup> string list)
    \<Rightarrow> (string \<rightharpoonup> nat) \<Rightarrow> string list \<Rightarrow> WorkflowNode list \<Rightarrow> WorkflowNode list option" where
  "kahn_loop nm adj inDegree queue sortedOrder =
     (case queue of
        [] \<Rightarrow> Some sortedOrder
      | u # q \<Rightarrow>
          (case fold relax (case adj u of None \<Rightarrow> [] | Some vs \<Rightarrow> vs) (inDegree, q) of
             (inDegree1, queue1) \<Rightarrow>
               kahn_loop nm adj inDegree1 queue1
                 (case nm u of None \<Rightarrow> sortedOrder | Some node \<Rightarrow> sortedOrder @ [node])))"

declare kahn_loop.simps [code]

definition graph_maps :: "WorkflowNode list \<Rightarrow> Connection list
    \<Rightarrow> (string \<rightharpoonup> string list) \<times> (string \<rightharpoonup> nat)" where
  "graph_maps nodes connections =
     fold add_connection connections (fold add_node nodes (Map.empty, Map.empty))"

definition initial_queue :: "WorkflowNode list \<Rightarrow> (string \<rightharpoonup> nat) \<Rightarrow> string list" where
  "initial_queue nodes inDegree = map node_id (filter (\<lambda>node. inDegree (node_id node) = Some 0) nodes)"

definition cycle_message :: string where
  "cycle_message = ''Workflow has a cycle or is disconnected. Please ensure all nodes form a single, valid flow from start to end.''"

text \<open>The result is the returned value (\<open>None\<close> for \<open>null\<close>) and the state after \<open>setError\<close>;
  the outer \<open>None\<close> is the call that never returns.\<close>

definition getExecutionOrder :: "WorkflowNode list \<Rightarrow> Connection list \<Rightarrow> app_state
    \<Rightarrow> (WorkflowNode list option \<times> app_state) option" where
  "getExecutionOrder nodes connections st =
     (if nodes = [] then Some (Some [], st)
      else
        (case graph_maps nodes connections of
           (adj, inDegree) \<Rightarrow>
             (case kahn_loop (nodeMap nodes) adj inDegree (initial_queue nodes inDegree) [] of
                None \<Rightarrow> None
              | Some sortedOrder \<Rightarrow>
                  if length sortedOrder \<noteq> length nodes
                  then Some (None, st\<lparr>error := Some cycle_message\<rparr>)
                  else Some (Some sortedOrder, st\<lparr>error := None\<rparr>))))"

subsection \<open>executeWorkflow\<close>

text \<open>How a call of \<open>executeWorkflow\<close> ends: at one of the \<open>return\<close>s before the run starts,
  at the end of the loops, at the \<open>return\<close> of the cancel branch, at the \<open>return\<close> of the
  failure branch, or with an exception that leaves the function.\<close>

datatype run_end = NotStarted | Completed | Cancelled | Failed | Rejected exn

text \<open>The \<open>onRetry\<close> callback that \<open>executeWorkflow\<close> passes to \<open>editImage\<close>. It runs while
  \<open>editImage\<close> is awaited, once for each \<open>Retry\<close> event; nothing else of
  \<open>executeWorkflow\<close> writes the state in between.\<close>

fun onRetry :: "event \<Rightarrow> app_state \<Rightarrow> app_state" where
  "onRetry (Retry attempt delay model) st =
     st\<lparr>retryInfo := Some (model, attempt, delay),
        notification := Some (RetryNotice model attempt delay)\<rparr>"
| "onRetry _ st = st"

definition during_call :: "world \<Rightarrow> world \<Rightarrow> app_state \<Rightarrow> app_state" where
  "during_call w w1 st = fold onRetry (drop (length (trace w)) (trace w1)) st"

definition addLogEntry :: "OperationLog \<Rightarrow> app_state \<Rightarrow> app_state" where
  "addLogEntry logEntry st = st\<lparr>logs := logs st @ [logEntry]\<rparr>"

fun message :: "exn \<Rightarrow> string" where
  "message (Error m) = m"
| "message (QuotaError m d) = m"

definition quota_error_text :: "WorkflowNode \<Rightarrow> ImageFile \<Rightarrow> string" where
  "quota_error_text step img =
     ''Quota exceeded while processing '' @ [CHR 0x22] @ name step @ [CHR 0x22] @ '' for ''
     @ [CHR 0x22] @ file_name img @ [CHR 0x22]
     @ ''. Please check your Google Cloud billing and Gemini API quotas: ''
     @ ''https://ai.google.dev/gemini-api/docs/rate-limits''"

definition step_error_text :: "WorkflowNode \<Rightarrow> ImageFile \<Rightarrow> string \<Rightarrow> string" where
  "step_error_text step img errorMessage =
     ''Error on '' @ [CHR 0x22] @ name step @ [CHR 0x22] @ '' for ''
     @ [CHR 0x22] @ file_name img @ [CHR 0x22] @ '': '' @ errorMessage"

text \<open>The \<open>catch (e)\<close> of one step, lines 279 to 337. Every exception of \<open>editImage\<close> is an
  \<open>Error\<close> of name \<open>Error\<close> or \<open>QuotaError\<close>, so \<open>errorMessage\<close> is its message and the name
  is never \<open>AbortError\<close>.\<close>

definition on_failure :: "exn \<Rightarrow> WorkflowNode \<Rightarrow> ImageFile \<Rightarrow> app_state \<Rightarrow> run_end \<times> app_state" where
  "on_failure ex step img st =
     (if message ex = ''Request aborted'' then
        (Cancelled,
         st\<lparr>notification := Some CancelledNotice, isLoading := False,
            abortController := False, retryInfo := None\<rparr>)
      else
        let st1 = (case ex of
                     QuotaError m d \<Rightarrow>
                       st\<lparr>error := Some (quota_error_text step img),
                          notification := Some QuotaNotice\<rparr>
                   | Error m \<Rightarrow> st\<lparr>error := Some (step_error_text step img m)\<rparr>);
            st2 = addLogEntry \<lparr>imageName = file_name img, nodeName = name step,
                               status = Failure_status, cost = 0, credits = 0\<rparr> st1
        in (Failed, st2\<lparr>isLoading := False, abortController := False, retryInfo := None\<rparr>))"

text \<open>The inner loop \<open>for (const [stepIndex, step] of workflow.entries())\<close> for one image, from
  step \<open>stepIndex\<close> on; \<open>len\<close> is \<open>workflow.length\<close>. The result \<open>None\<close> means that the
  loop ran to its end.\<close>

fun run_steps :: "env \<Rightarrow> ImageFile \<Rightarrow> nat \<Rightarrow> WorkflowNode list \<Rightarrow> nat \<Rightarrow> string \<Rightarrow> app_state \<Rightarrow> world
    \<Rightarrow> run_end option \<times> app_state \<times> world" where
  "run_steps e img len [] stepIndex currentImageDataUrl st w = (None, st, w)"
| "run_steps e img len (step # rest) stepIndex currentImageDataUrl st w =
     (case editImage e currentImageDataUrl (prompt step) w of
        (Inr resultDataUrl, w1) \<Rightarrow>
          let st1 = (during_call w w1 st)\<lparr>retryInfo := None\<rparr>;
              st2 = addLogEntry \<lparr>imageName = file_name img, nodeName = name step,
                                 status = Success, cost = SIMULATED_COST_PER_OP,
                                 credits = SIMULATED_CREDITS_PER_OP\<rparr> st1;
              st3 = (if Suc stepIndex = len
                     then st2\<lparr>outputs := outputs st2
                            @ [\<lparr>originalImageId = image_id img,
                                originalFileName = file_name img,
                                out_dataUrl = resultDataUrl\<rparr>]\<rparr>
                     else st2)
          in run_steps e img len rest (Suc stepIndex) resultDataUrl st3 w1
      | (Inl ex, w1) \<Rightarrow>
          (case on_failure ex step img (during_call w w1 st) of
             (fin, st1) \<Rightarrow> (Some fin, st1, w1)))"

text \<open>The outer loop \<open>for (const [imageIndex, image] of images.entries())\<close>. Its \<open>throw\<close> at
  line 226 is outside the \<open>try ... catch\<close> of the steps, so it leaves \<open>executeWorkflow\<close>.\<close>

fun run_images :: "env \<Rightarrow> ImageFile list \<Rightarrow> WorkflowNode list \<Rightarrow> app_state \<Rightarrow> world
    \<Rightarrow> run_end \<times> app_state \<times> world" where
  "run_images e [] workflow st w = (Completed, st, w)"
| "run_images e (img # rest) workflow st w =
     (if aborted e w then (Rejected (Error ''Request aborted''), st, w)
      else
        (case run_steps e img (length workflow) workflow 0 (dataUrl img) st w of
           (Some fin, st1, w1) \<Rightarrow> (fin, st1, w1)
         | (None, st1, w1) \<Rightarrow> run_images e rest workflow st1 w1))"

declare run_steps.simps [simp del] run_images.simps [simp del]

text \<open>\<open>executeWorkflow\<close>. \<open>provider\<close> is the provider during the run. \<open>cancel = Some c\<close> says that
  the user presses Cancel while the run is in its suspension number \<open>c + 1\<close>; the controller
  is new, so its signal is not aborted before the first suspension. The \<open>finally\<close> block runs
  however the loops end.\<close>

definition executeWorkflow :: "(nat \<Rightarrow> request \<Rightarrow> reply) \<Rightarrow> nat option \<Rightarrow> WorkflowNode list
    \<Rightarrow> Connection list \<Rightarrow> ImageFile list \<Rightarrow> app_state \<Rightarrow> world
    \<Rightarrow> (run_end \<times> app_state \<times> world) option" where
  "executeWorkflow provider cancel nodes connections images st w =
     (case getExecutionOrder nodes connections (st\<lparr>error := None\<rparr>) of
        None \<Rightarrow> None
      | Some (None, st1) \<Rightarrow> Some (NotStarted, st1, w)
      | Some (Some workflow, st1) \<Rightarrow>
          if \<not> isApiKeySet w then
            Some (NotStarted,
                  st1\<lparr>error := Some ''Please configure your Gemini API key before running the workflow.''\<rparr>,
                  w)
          else if images = [] then
            Some (NotStarted,
                  st1\<lparr>error := Some ''Please upload at least one image to run the workflow.''\<rparr>, w)
          else if workflow = [] then
            Some (NotStarted,
                  st1\<lparr>error := Some ''Please add at least one node to the workflow.''\<rparr>, w)
          else
            (case run_images
                    \<lparr>backend = provider, signal = map_option (\<lambda>c. tick w + Suc c) cancel\<rparr>
                    images workflow
                    (st1\<lparr>abortController := True, retryInfo := None, isLoading := True,
                        outputs := []\<rparr>) w of
               (fin, st2, w1) \<Rightarrow> Some (fin, st2\<lparr>isLoading := False, abortController := False\<rparr>, w1)))"

subsection \<open>Names used in the statements\<close>


text \<open>The models called and the retries announced, in order.\<close>

fun calls :: "event list \<Rightarrow> string list" where
  "calls [] = []"
| "calls (Call m # es) = m # calls es"
| "calls (ev # es) = calls es"

fun retries :: "event list \<Rightarrow> (nat \<times> string) list" where
  "retries [] = []"
| "retries (Retry n d m # es) = (n, m) # retries es"
| "retries (ev # es) = retries es"

text \<open>The entry of \<open>modelFailures\<close> for a model that gave no image, line 290.\<close>

definition quota_reason :: failure where
  "quota_reason = Failure ''quota_or_rate_limit_or_no_result'' None"

text \<open>The prompts of the \<open>editImage\<close> calls, in order.\<close>

fun edits :: "event list \<Rightarrow> string list" where
  "edits [] = []"
| "edits (EditImage p # es) = p # edits es"
| "edits (ev # es) = edits es"

text \<open>The log entries of lines 262 to 268 and 323 to 329.\<close>

definition success_log :: "ImageFile \<Rightarrow> WorkflowNode \<Rightarrow> OperationLog" where
  "success_log img step =
     \<lparr>imageName = file_name img, nodeName = name step, status = Success,
      cost = SIMULATED_COST_PER_OP, credits = SIMULATED_CREDITS_PER_OP\<rparr>"

definition failure_log :: "ImageFile \<Rightarrow> WorkflowNode \<Rightarrow> OperationLog" where
  "failure_log img step =
     \<lparr>imageName = file_name img, nodeName = name step, status = Failure_status,
      cost = 0, credits = 0\<rparr>"

text \<open>The steps \<open>ss\<close> all succeed on the data URL \<open>cur\<close>: the data URL that the last of them
  returns and the world after it.\<close>

fun pass_steps :: "env \<Rightarrow> WorkflowNode list \<Rightarrow> string \<Rightarrow> world \<Rightarrow> (string \<times> world) option" where
  "pass_steps e [] cur w = Some (cur, w)"
| "pass_steps e (step # rest) cur w =
     (case editImage e cur (prompt step) w of
        (Inr res, w1) \<Rightarrow> pass_steps e rest res w1
      | (Inl ex, w1) \<Rightarrow> None)"

text \<open>The images are reached one after the other (the run is not cancelled when their turn
  comes) and each of them completes every step: the final data URLs and the world after the
  last image.\<close>

fun pass_images :: "env \<Rightarrow> ImageFile list \<Rightarrow> WorkflowNode list \<Rightarrow> world \<Rightarrow> (string list \<times> world) option" where
  "pass_images e [] workflow w = Some ([], w)"
| "pass_images e (img # rest) workflow w =
     (if aborted e w then None
      else
        (case pass_steps e workflow (dataUrl img) w of
           None \<Rightarrow> None
         | Some (res, w1) \<Rightarrow>
             (case pass_images e rest workflow w1 of
                None \<Rightarrow> None
              | Some (rs, w2) \<Rightarrow> Some (res # rs, w2))))"

definition output_of :: "ImageFile \<Rightarrow> string \<Rightarrow> OutputImage" where
  "output_of img res = \<lparr>originalImageId = image_id img, originalFileName = file_name img,
                         out_dataUrl = res\<rparr>"









text \<open>An error text names a step and an image when it contains both names.\<close>

definition names_step_and_image :: "string \<Rightarrow> WorkflowNode \<Rightarrow> ImageFile \<Rightarrow> bool" where
  "names_step_and_image msg step img = (sublist (name step) msg \<and> sublist (file_name img) msg)"



text \<open>The pairs of neighbours in a list.\<close>

fun links :: "'a list \<Rightarrow> ('a \<times> 'a) list" where
  "links (x # y # zs) = (x, y) # links (y # zs)"
| "links xs = []"

definition endpoints :: "Connection \<Rightarrow> string \<times> string" where
  "endpoints c = (fromNodeId c, toNodeId c)"

text \<open>An acyclic, connected single-chain graph: the steps are those of a chain with pairwise
  different ids, in any insertion order, and the edges are exactly the links between
  neighbours of the chain, in any order.\<close>

definition single_chain :: "WorkflowNode list \<Rightarrow> WorkflowNode list \<Rightarrow> Connection list \<Rightarrow> bool" where
  "single_chain chain nodes connections \<longleftrightarrow>
     distinct (map node_id chain) \<and> mset nodes = mset chain
     \<and> mset (map endpoints connections) = mset (links (map node_id chain))"

subsection \<open>Sample data\<close>

definition world0 :: world where
  "world0 = \<lparr>ai = Some ''key'', tick = 0, trace = []\<rparr>"

definition good_reply :: reply where
  "good_reply = Responds \<lparr>candidates = Some [\<lparr>parts = Some [None, Some \<lparr>mimeType = ''image/png'', data = ''QUJD''\<rparr>],
                                            finishReason = Some ''STOP''\<rparr>],
                           blockReason = None\<rparr>"

definition busy_text :: string where
  "busy_text = ''429, retry in 2.45s''"

text \<open>A provider that is out of quota at every call.\<close>
definition env_quota :: env where
  "env_quota = \<lparr>backend = (\<lambda>n rq. Rejects (ErrorValue ''RESOURCE_EXHAUSTED'')), signal = None\<rparr>"

text \<open>A provider that is busy until time 4 and then answers with an image.\<close>
definition env_busy :: env where
  "env_busy = \<lparr>backend = (\<lambda>n rq. if n < 4 then Rejects (ErrorValue busy_text) else good_reply),
                signal = None\<rparr>"


definition step_of :: "string \<Rightarrow> WorkflowNode" where
  "step_of i = \<lparr>node_id = i, node_type = CUSTOM, prompt = ''do '' @ i, name = ''step '' @ i,
                position = (0, 0)\<rparr>"

definition edge :: "string \<Rightarrow> string \<Rightarrow> Connection" where
  "edge a b = \<lparr>conn_id = a @ ''-'' @ b, fromNodeId = a, toNodeId = b\<rparr>"

definition image_of :: "string \<Rightarrow> ImageFile" where
  "image_of i = \<lparr>image_id = i, file_name = i @ ''.png'', dataUrl = ''data:image/png;base64,QUFB''\<rparr>"

definition state0 :: app_state where
  "state0 = \<lparr>error = None, notification = None, outputs = [], logs = [], isLoading = False,
              retryInfo = None, abortController = False\<rparr>"

text \<open>A reply that blocks the request.\<close>

definition blocked_reply :: reply where
  "blocked_reply = Responds \<lparr>candidates = None, blockReason = Some ''SAFETY''\<rparr>"

text \<open>A provider that answers every call with an image.\<close>

definition provider_ok :: "nat \<Rightarrow> request \<Rightarrow> reply" where
  "provider_ok n rq = good_reply"

text \<open>An image with data of its own, a provider that is out of quota for requests with the
  given data, and a provider that answers three calls with an image and then blocks the
  request.\<close>

definition image_y :: ImageFile where
  "image_y = \<lparr>image_id = ''y'', file_name = ''y.png'', dataUrl = ''data:image/png;base64,WVlZ''\<rparr>"

definition provider_quota_for :: "string \<Rightarrow> nat \<Rightarrow> request \<Rightarrow> reply" where
  "provider_quota_for d n rq =
     (if rq_data rq = d then Rejects (ErrorValue ''429 RESOURCE_EXHAUSTED'') else good_reply)"

definition provider_blocks_fourth :: "nat \<Rightarrow> request \<Rightarrow> reply" where
  "provider_blocks_fourth n rq = (if n < 3 then good_reply else blocked_reply)"



section \<open>Properties of the service\<close>

subsection \<open>One iteration of the retry loop\<close>

lemma aborted_iff: "aborted e w \<longleftrightarrow> (\<exists>t. signal e = Some t \<and> t \<le> tick w)"
  by (simp add: aborted_def split: option.splits)

lemma loop_retry_step:
  assumes "generate e model b mt p w = (Inl err, w1)"
      and "isQuota (message_of err)" and "attempt < MAX_RETRIES"
      and "\<not> aborted e (w1\<lparr>tick := Suc (tick w1)\<rparr>)"
  shows "attemptGenerate_loop e model b mt p attempt w =
         attemptGenerate_loop e model b mt p (Suc attempt)
           (w1\<lparr>tick := Suc (tick w1),
               trace := trace w1 @ [Retry (Suc attempt) (backoff (message_of err) (Suc attempt)) model,
                                    Sleep (backoff (message_of err) (Suc attempt))]\<rparr>)"
proof -
  let ?d = "backoff (message_of err) (Suc attempt)"
  let ?w2 = "w1\<lparr>trace := trace w1 @ [Retry (Suc attempt) ?d model]\<rparr>"
  have na2: "\<not> aborted e ?w2" using assms(4) by (auto simp: aborted_iff)
  have na3: "\<not> aborted e (sleep ?d ?w2)" using assms(4) by (auto simp: aborted_iff sleep_def)
  have w3: "sleep ?d ?w2 = w1\<lparr>tick := Suc (tick w1), trace := trace w1 @ [Retry (Suc attempt) ?d model, Sleep ?d]\<rparr>"
    by (simp add: sleep_def)
  have "attemptGenerate_loop e model b mt p attempt w =
        attemptGenerate_loop e model b mt p (Suc attempt) (sleep ?d ?w2)"
    using assms(1-3) na2 na3
    by (subst attemptGenerate_loop.simps) (simp add: Let_def)
  then show ?thesis by (simp only: w3)
qed


lemma loop_exhausted:
  assumes "generate e model b mt p w = (Inl err, w1)"
      and "isQuota (message_of err)" 
  shows "attemptGenerate_loop e model b mt p MAX_RETRIES w = (Inr \<lparr>success = False, result = None\<rparr>, w1)"
  using assms by (subst attemptGenerate_loop.simps) (simp split: thrown.splits)

lemma loop_success:
  assumes "generate e model b mt p w = (Inr r, w1)" and "attempt \<le> MAX_RETRIES"
  shows "attemptGenerate_loop e model b mt p attempt w = (Inr r, w1)"
  using assms by (subst attemptGenerate_loop.simps) simp

lemma generate_call:
  "\<not> aborted e w \<Longrightarrow>
   generate e model b mt p w =
     ((case backend e (tick w) \<lparr>rq_model = model, rq_data = b, rq_mimeType = mt, rq_prompt = p\<rparr> of
         Rejects x \<Rightarrow> Inl x | Responds r \<Rightarrow> validate r),
      w\<lparr>tick := Suc (tick w), trace := trace w @ [Call model]\<rparr>)"
  by (simp add: generate_def Let_def split: reply.splits)

lemma validate_success: "validate r = Inr res \<Longrightarrow> success res \<and> truthy (result res)"
  by (auto simp: validate_def truthy_def split: option.splits if_splits list.splits)

lemma calls_append: "calls (xs @ ys) = calls xs @ calls ys"
  by (induction xs rule: calls.induct) auto

lemma retries_append: "retries (xs @ ys) = retries xs @ retries ys"
  by (induction xs rule: retries.induct) auto


lemma backoff_suggested:
  "suggestedDelay msg = Some g \<Longrightarrow> Math_round (times (parseFloat g) 1000) = Finite x \<Longrightarrow>
   backoff msg n = Millis (nat \<lfloor>x\<rfloor>)"
  by (simp add: backoff_def suggestedDelayMs_def delay_of_def)





text \<open>
  C10. While no API key is configured, \<open>editImage\<close> throws the "API key not configured"
  error at once: whatever the data URL, the signal and the provider are, the result is that
  error, and nothing has happened but the entry into \<open>editImage\<close> (no parse error, no call,
  no retry, no sleep). And \<open>setApiKey\<close> throws on the empty key.
\<close>

theorem editImage_without_key:
  "ai w = None \<Longrightarrow>
     editImage e base64ImageDataUrl p w =
       (Inl (Error ''API key not configured. Please set your Gemini API key in the settings.''),
        w\<lparr>trace := trace w @ [EditImage p]\<rparr>)
     \<and> setApiKey [] w = Inl (Error ''API key is required'')"
  by (simp add: editImage_def setApiKey_def Let_def)

theorem editImage_without_key_witness:
  "ai \<lparr>ai = None, tick = 0, trace = []\<rparr> = None
   \<and> editImage \<lparr>backend = (\<lambda>n r. Rejects (OtherValue [])), signal = Some 0\<rparr>
        ''not a data url'' ''sharpen'' \<lparr>ai = None, tick = 0, trace = []\<rparr>
      = (Inl (Error ''API key not configured. Please set your Gemini API key in the settings.''),
         \<lparr>ai = None, tick = 0, trace = [EditImage ''sharpen'']\<rparr>)
   \<and> setApiKey [] \<lparr>ai = None, tick = 0, trace = []\<rparr> = Inl (Error ''API key is required'')"
  using editImage_without_key
    [of "\<lparr>ai = None, tick = 0, trace = []\<rparr>"
        "\<lparr>backend = (\<lambda>n r. Rejects (OtherValue [])), signal = Some 0\<rparr>"
        "''not a data url''" "''sharpen''"]
  by simp

text \<open>
  C5. One backend whose call fails with a quota-marker error on attempts 1 and 2 and succeeds
  on attempt 3 (there is no cancellation): \<open>attemptGenerate\<close> returns the success after
  exactly two retries. The events are three calls with, after each of the first two, one
  \<open>onRetry\<close> (attempt number, delay, model) followed by the sleep of that delay.
\<close>

theorem retry_twice_then_success:
  assumes sig: "signal e = None"
      and r1: "backend e (tick w) \<lparr>rq_model = model, rq_data = b, rq_mimeType = mt, rq_prompt = p\<rparr> = Rejects x1"
      and q1: "isQuota (message_of x1)"
      and r2: "backend e (tick w + 2) \<lparr>rq_model = model, rq_data = b, rq_mimeType = mt, rq_prompt = p\<rparr> = Rejects x2"
      and q2: "isQuota (message_of x2)"
      and r3: "backend e (tick w + 4) \<lparr>rq_model = model, rq_data = b, rq_mimeType = mt, rq_prompt = p\<rparr> = Responds r"
      and ok: "validate r = Inr res"
  shows "attemptGenerate e model b mt p w =
           (Inr res,
            w\<lparr>tick := tick w + 5,
              trace := trace w @
                [Call model,
                 Retry 1 (backoff (message_of x1) 1) model, Sleep (backoff (message_of x1) 1),
                 Call model,
                 Retry 2 (backoff (message_of x2) 2) model, Sleep (backoff (message_of x2) 2),
                 Call model]\<rparr>)
         \<and> success res"
proof -
  have na: "\<And>v. \<not> aborted e v" using sig by (simp add: aborted_def)
  let ?d1 = "backoff (message_of x1) (Suc 0)" and ?d2 = "backoff (message_of x2) (Suc (Suc 0))"
  let ?w1 = "w\<lparr>tick := Suc (tick w), trace := trace w @ [Call model]\<rparr>"
  let ?w2 = "?w1\<lparr>tick := Suc (tick ?w1), trace := trace ?w1 @ [Retry (Suc 0) ?d1 model, Sleep ?d1]\<rparr>"
  let ?w3 = "?w2\<lparr>tick := Suc (tick ?w2), trace := trace ?w2 @ [Call model]\<rparr>"
  let ?w4 = "?w3\<lparr>tick := Suc (tick ?w3), trace := trace ?w3 @ [Retry (Suc (Suc 0)) ?d2 model, Sleep ?d2]\<rparr>"
  let ?w5 = "?w4\<lparr>tick := Suc (tick ?w4), trace := trace ?w4 @ [Call model]\<rparr>"
  have g1: "generate e model b mt p w = (Inl x1, ?w1)"
    using r1 by (simp add: generate_call [OF na])
  have t2: "tick w + 2 = Suc (Suc (tick w))" and t4: "tick w + 4 = Suc (Suc (Suc (Suc (tick w))))"
    by simp_all
  have g2: "generate e model b mt p ?w2 = (Inl x2, ?w3)"
    using r2 unfolding t2 by (simp add: generate_call [OF na])
  have g3: "generate e model b mt p ?w4 = (Inr res, ?w5)"
    using r3 ok unfolding t4 by (simp add: generate_call [OF na])
  have "attemptGenerate e model b mt p w = attemptGenerate_loop e model b mt p (Suc 0) ?w2"
    unfolding attemptGenerate_def
    using loop_retry_step [OF g1 q1, of 0] na by (simp add: MAX_RETRIES_def)
  also have "\<dots> = attemptGenerate_loop e model b mt p (Suc (Suc 0)) ?w4"
    using loop_retry_step [OF g2 q2, of "Suc 0"] na by (simp add: MAX_RETRIES_def)
  also have "\<dots> = (Inr res, ?w5)"
    using loop_success [OF g3, of "Suc (Suc 0)"] by (simp add: MAX_RETRIES_def)
  finally show ?thesis using validate_success [OF ok] by (simp add: numeral_2_eq_2)
qed


theorem retry_twice_then_success_witness:
  "attemptGenerate env_busy ''m1'' ''QUFB'' ''image/png'' ''sharpen'' world0 =
     (Inr \<lparr>success = True, result = Some ''data:image/png;base64,QUJD''\<rparr>,
      \<lparr>ai = Some ''key'', tick = 5,
        trace = [Call ''m1'', Retry 1 (Millis 2450) ''m1'', Sleep (Millis 2450),
                 Call ''m1'', Retry 2 (Millis 2450) ''m1'', Sleep (Millis 2450),
                 Call ''m1'']\<rparr>)"
proof -
  let ?rq = "\<lparr>rq_model = ''m1'', rq_data = ''QUFB'', rq_mimeType = ''image/png'', rq_prompt = ''sharpen''\<rparr>"
  let ?res = "\<lparr>success = True, result = Some ''data:image/png;base64,QUJD''\<rparr>"
  let ?r = "\<lparr>candidates = Some [\<lparr>parts = Some [None, Some \<lparr>mimeType = ''image/png'', data = ''QUJD''\<rparr>],
                                            finishReason = Some ''STOP''\<rparr>],
                           blockReason = None\<rparr>"
  have sig: "signal env_busy = None" by (simp add: env_busy_def)
  have r1: "backend env_busy (tick world0) ?rq = Rejects (ErrorValue busy_text)"
    by (simp add: env_busy_def world0_def)
  have r2: "backend env_busy (tick world0 + 2) ?rq = Rejects (ErrorValue busy_text)"
    by (simp add: env_busy_def world0_def)
  have r3: "backend env_busy (tick world0 + 4) ?rq = Responds ?r"
    by (simp add: env_busy_def world0_def good_reply_def)
  have q: "isQuota (message_of (ErrorValue busy_text))" by code_simp
  have ok: "validate ?r = Inr ?res" by code_simp
  have g: "suggestedDelay (message_of (ErrorValue busy_text)) = Some ''2.45''" by code_simp
  have v: "Math_round (times (parseFloat ''2.45'') 1000) = Finite 2450" by code_simp
  have d1: "backoff (message_of (ErrorValue busy_text)) 1 = Millis 2450"
    using backoff_suggested [OF g v] by simp
  have d2: "backoff (message_of (ErrorValue busy_text)) 2 = Millis 2450"
    using backoff_suggested [OF g v] by simp
  from retry_twice_then_success [OF sig r1 q r2 q r3 ok]
  show ?thesis unfolding d1 d2 by (simp add: world0_def)
qed

subsection \<open>A provider that is always out of quota\<close>

lemma quota_attempts:
  assumes sig: "signal e = None"
      and allq: "\<forall>n m. \<exists>x. backend e n \<lparr>rq_model = m, rq_data = b, rq_mimeType = mt, rq_prompt = p\<rparr>
                                = Rejects x \<and> isQuota (message_of x)"
  shows "\<exists>w1. attemptGenerate e m b mt p w = (Inr \<lparr>success = False, result = None\<rparr>, w1)
           \<and> calls (trace w1) = calls (trace w) @ replicate 4 m
           \<and> retries (trace w1) = retries (trace w) @ [(1, m), (2, m), (3, m)]"
proof -
  have na: "\<And>v. \<not> aborted e v" using sig by (simp add: aborted_def)
  have gen: "\<And>v. \<exists>x. generate e m b mt p v
                        = (Inl x, v\<lparr>tick := Suc (tick v), trace := trace v @ [Call m]\<rparr>)
                      \<and> isQuota (message_of x)"
  proof -
    fix v :: world
    obtain x where "backend e (tick v) \<lparr>rq_model = m, rq_data = b, rq_mimeType = mt, rq_prompt = p\<rparr>
                      = Rejects x" and "isQuota (message_of x)"
      using allq by blast
    then show "\<exists>x. generate e m b mt p v
                        = (Inl x, v\<lparr>tick := Suc (tick v), trace := trace v @ [Call m]\<rparr>)
                      \<and> isQuota (message_of x)"
      by (simp add: generate_call [OF na])
  qed
  define nxt where "nxt = (\<lambda>(v::world) x k.
     v\<lparr>tick := Suc (Suc (tick v)),
       trace := trace v @ [Call m, Retry k (backoff (message_of x) k) m, Sleep (backoff (message_of x) k)]\<rparr>)"
  have step: "\<And>v k. k < MAX_RETRIES \<Longrightarrow>
      \<exists>x. attemptGenerate_loop e m b mt p k v = attemptGenerate_loop e m b mt p (Suc k) (nxt v x (Suc k))"
  proof -
    fix v :: world and k assume k: "k < MAX_RETRIES"
    obtain x where g: "generate e m b mt p v
                        = (Inl x, v\<lparr>tick := Suc (tick v), trace := trace v @ [Call m]\<rparr>)"
               and q: "isQuota (message_of x)"
      using gen by blast
    from loop_retry_step [OF g q k na]
    show "\<exists>x. attemptGenerate_loop e m b mt p k v = attemptGenerate_loop e m b mt p (Suc k) (nxt v x (Suc k))"
      by (auto simp: nxt_def)
  qed
  obtain x1 where s1: "attemptGenerate_loop e m b mt p 0 w = attemptGenerate_loop e m b mt p 1 (nxt w x1 1)"
    using step [of 0 w] by (auto simp: MAX_RETRIES_def)
  obtain x2 where s2: "attemptGenerate_loop e m b mt p 1 (nxt w x1 1)
                       = attemptGenerate_loop e m b mt p 2 (nxt (nxt w x1 1) x2 2)"
    using step [of 1 "nxt w x1 1"] by (auto simp: MAX_RETRIES_def numeral_2_eq_2)
  obtain x3 where s3: "attemptGenerate_loop e m b mt p 2 (nxt (nxt w x1 1) x2 2)
                       = attemptGenerate_loop e m b mt p 3 (nxt (nxt (nxt w x1 1) x2 2) x3 3)"
    using step [of 2 "nxt (nxt w x1 1) x2 2"] by (auto simp: MAX_RETRIES_def numeral_3_eq_3 numeral_2_eq_2)
  let ?v = "nxt (nxt (nxt w x1 1) x2 2) x3 3"
  obtain x4 where g4: "generate e m b mt p ?v
                        = (Inl x4, ?v\<lparr>tick := Suc (tick ?v), trace := trace ?v @ [Call m]\<rparr>)"
               and q4: "isQuota (message_of x4)"
    using gen by blast
  have s4: "attemptGenerate_loop e m b mt p 3 ?v
              = (Inr \<lparr>success = False, result = None\<rparr>,
                 ?v\<lparr>tick := Suc (tick ?v), trace := trace ?v @ [Call m]\<rparr>)"
    using loop_exhausted [OF g4 q4] by (simp add: MAX_RETRIES_def)
  have "attemptGenerate e m b mt p w
          = (Inr \<lparr>success = False, result = None\<rparr>,
             ?v\<lparr>tick := Suc (tick ?v), trace := trace ?v @ [Call m]\<rparr>)"
    unfolding attemptGenerate_def using s1 s2 s3 s4 by simp
  moreover have "calls (trace (?v\<lparr>tick := Suc (tick ?v), trace := trace ?v @ [Call m]\<rparr>))
                   = calls (trace w) @ replicate 4 m"
    by (simp add: nxt_def calls_append numeral_eq_Suc)
  moreover have "retries (trace (?v\<lparr>tick := Suc (tick ?v), trace := trace ?v @ [Call m]\<rparr>))
                   = retries (trace w) @ [(1, m), (2, m), (3, m)]"
    by (simp add: nxt_def retries_append)
  ultimately show ?thesis by blast
qed

lemma update_fresh: "k \<notin> fst ` set al \<Longrightarrow> AList.update k v al = al @ [(k, v)]"
  by (induction al) auto

lemma quota_models:
  assumes sig: "signal e = None"
      and allq: "\<forall>n m. \<exists>x. backend e n \<lparr>rq_model = m, rq_data = b, rq_mimeType = mt, rq_prompt = p\<rparr>
                                = Rejects x \<and> isQuota (message_of x)"
  shows "distinct ms \<Longrightarrow> set ms \<inter> fst ` set fails = {} \<Longrightarrow>
         \<exists>w1. try_models e ms b mt p fails w
                 = (Inl (QuotaError quota_message (fails @ map (\<lambda>m. (m, quota_reason)) ms)), w1)
           \<and> calls (trace w1) = calls (trace w) @ concat (map (replicate 4) ms)
           \<and> retries (trace w1) = retries (trace w) @ concat (map (\<lambda>m. [(1, m), (2, m), (3, m)]) ms)"
proof (induction ms arbitrary: fails w)
  case Nil
  then show ?case by simp
next
  case (Cons m ms)
  have na: "\<And>v. \<not> aborted e v" using sig by (simp add: aborted_def)
  obtain w1 where a: "attemptGenerate e m b mt p w = (Inr \<lparr>success = False, result = None\<rparr>, w1)"
    and c1: "calls (trace w1) = calls (trace w) @ replicate 4 m"
    and r1: "retries (trace w1) = retries (trace w) @ [(1, m), (2, m), (3, m)]"
    using quota_attempts [OF sig allq] by blast
  let ?fails = "AList.update m quota_reason fails"
  have fr: "?fails = fails @ [(m, quota_reason)]"
    using Cons.prems by (intro update_fresh) auto
  have d: "distinct ms" and dj: "set ms \<inter> fst ` set ?fails = {}"
    using Cons.prems by (auto simp: fr)
  from Cons.IH [OF d dj, of "sleep (Millis 250) w1"]
  obtain w2 where t: "try_models e ms b mt p ?fails (sleep (Millis 250) w1)
                 = (Inl (QuotaError quota_message (?fails @ map (\<lambda>m. (m, quota_reason)) ms)), w2)"
    and c2: "calls (trace w2) = calls (trace (sleep (Millis 250) w1)) @ concat (map (replicate 4) ms)"
    and r2: "retries (trace w2) = retries (trace (sleep (Millis 250) w1))
                @ concat (map (\<lambda>m. [(1, m), (2, m), (3, m)]) ms)"
    by blast
  have "try_models e (m # ms) b mt p fails w
          = (Inl (QuotaError quota_message (fails @ map (\<lambda>m. (m, quota_reason)) (m # ms))), w2)"
    using a t na by (simp add: Let_def quota_reason_def fr [unfolded quota_reason_def])
  moreover have "calls (trace w2) = calls (trace w) @ concat (map (replicate 4) (m # ms))"
    using c1 c2 by (simp add: sleep_def calls_append)
  moreover have "retries (trace w2)
                   = retries (trace w) @ concat (map (\<lambda>m. [(1, m), (2, m), (3, m)]) (m # ms))"
    using r1 r2 by (simp add: sleep_def retries_append)
  ultimately show ?case by blast
qed

lemma editImage_all_quota:
  assumes key: "ai w \<noteq> None"
      and sig: "signal e = None"
      and url: "parseDataUrl base64ImageDataUrl = Inr (b, mt)"
      and allq: "\<forall>n m. \<exists>x. backend e n \<lparr>rq_model = m, rq_data = b, rq_mimeType = mt, rq_prompt = p\<rparr>
                                = Rejects x \<and> isQuota (message_of x)"
  shows "\<exists>w1. editImage e base64ImageDataUrl p w
                 = (Inl (QuotaError quota_message (map (\<lambda>m. (m, quota_reason)) MODEL_PREFERENCES)), w1)
           \<and> calls (trace w1) = calls (trace w) @ concat (map (replicate 4) MODEL_PREFERENCES)"
proof -
  have d: "distinct MODEL_PREFERENCES" by (simp add: MODEL_PREFERENCES_def)
  have na: "\<And>v. \<not> aborted e v" using sig by (simp add: aborted_def)
  let ?w = "w\<lparr>trace := trace w @ [EditImage p]\<rparr>"
  from quota_models [OF sig allq d, of "[]" ?w]
  obtain w1 where t: "try_models e MODEL_PREFERENCES b mt p [] ?w
                 = (Inl (QuotaError quota_message (map (\<lambda>m. (m, quota_reason)) MODEL_PREFERENCES)), w1)"
    and c: "calls (trace w1) = calls (trace ?w) @ concat (map (replicate 4) MODEL_PREFERENCES)"
    by auto
  have "editImage e base64ImageDataUrl p w
          = (Inl (QuotaError quota_message (map (\<lambda>m. (m, quota_reason)) MODEL_PREFERENCES)), w1)"
    using key url t na by (simp add: editImage_def Let_def)
  then show ?thesis using c by (auto simp: calls_append)
qed

text \<open>
  C4. If every call on every model fails with a quota-marker error (and nobody cancels),
  \<open>editImage\<close> calls the models in the order of \<open>MODEL_PREFERENCES\<close>, each model four
  times (three retries, numbered 1 to 3) before the next, and then throws one
  \<open>QuotaError\<close> whose details name every model, in that order.
\<close>

theorem all_quota_exhausts_every_backend:
  assumes key: "ai w \<noteq> None"
      and sig: "signal e = None"
      and url: "parseDataUrl base64ImageDataUrl = Inr (b, mt)"
      and allq: "\<forall>n rq. \<exists>x. backend e n rq = Rejects x \<and> isQuota (message_of x)"
  shows "\<exists>w1. editImage e base64ImageDataUrl p w
                 = (Inl (QuotaError quota_message (map (\<lambda>m. (m, quota_reason)) MODEL_PREFERENCES)), w1)
           \<and> calls (trace w1) = calls (trace w) @ concat (map (replicate 4) MODEL_PREFERENCES)
           \<and> retries (trace w1)
               = retries (trace w) @ concat (map (\<lambda>m. [(1, m), (2, m), (3, m)]) MODEL_PREFERENCES)"
proof -
  have d: "distinct MODEL_PREFERENCES" by (simp add: MODEL_PREFERENCES_def)
  have na: "\<And>v. \<not> aborted e v" using sig by (simp add: aborted_def)
  let ?w = "w\<lparr>trace := trace w @ [EditImage p]\<rparr>"
  have allq': "\<forall>n m. \<exists>x. backend e n \<lparr>rq_model = m, rq_data = b, rq_mimeType = mt, rq_prompt = p\<rparr>
                            = Rejects x \<and> isQuota (message_of x)"
    using allq by blast
  from quota_models [OF sig allq' d, of "[]" ?w]
  obtain w1 where t: "try_models e MODEL_PREFERENCES b mt p [] ?w
                 = (Inl (QuotaError quota_message (map (\<lambda>m. (m, quota_reason)) MODEL_PREFERENCES)), w1)"
    and c: "calls (trace w1) = calls (trace ?w) @ concat (map (replicate 4) MODEL_PREFERENCES)"
    and r: "retries (trace w1) = retries (trace ?w)
              @ concat (map (\<lambda>m. [(1, m), (2, m), (3, m)]) MODEL_PREFERENCES)"
    by auto
  have "editImage e base64ImageDataUrl p w
          = (Inl (QuotaError quota_message (map (\<lambda>m. (m, quota_reason)) MODEL_PREFERENCES)), w1)"
    using key url t na by (simp add: editImage_def Let_def)
  then show ?thesis using c r by (auto simp: calls_append retries_append)
qed


theorem all_quota_exhausts_every_backend_witness:
  "fst (editImage env_quota ''data:image/png;base64,QUFB'' ''sharpen'' world0)
     = Inl (QuotaError quota_message
              [(''gemini-2.0-flash-preview-image-generation'', quota_reason),
               (''gemini-2.5-flash-image-preview'', quota_reason),
               (''gemini-2.1-image-preview'', quota_reason),
               (''gemini-1.5-preview-image'', quota_reason)])
   \<and> length (calls (trace (snd (editImage env_quota ''data:image/png;base64,QUFB'' ''sharpen'' world0))))
       = 16
   \<and> length (retries (trace (snd (editImage env_quota ''data:image/png;base64,QUFB'' ''sharpen'' world0))))
       = 12"
proof -
  have key: "ai world0 \<noteq> None" by (simp add: world0_def)
  have sig: "signal env_quota = None" by (simp add: env_quota_def)
  have url: "parseDataUrl ''data:image/png;base64,QUFB'' = Inr (''QUFB'', ''image/png'')"
    by code_simp
  have q: "isQuota ''RESOURCE_EXHAUSTED''" by code_simp
  have allq: "\<forall>n rq. \<exists>x. backend env_quota n rq = Rejects x \<and> isQuota (message_of x)"
    using q by (simp add: env_quota_def)
  from all_quota_exhausts_every_backend [OF key sig url allq, of "''sharpen''"]
  obtain w1 where "editImage env_quota ''data:image/png;base64,QUFB'' ''sharpen'' world0
                 = (Inl (QuotaError quota_message (map (\<lambda>m. (m, quota_reason)) MODEL_PREFERENCES)), w1)"
    and "calls (trace w1) = calls (trace world0) @ concat (map (replicate 4) MODEL_PREFERENCES)"
    and "retries (trace w1)
               = retries (trace world0) @ concat (map (\<lambda>m. [(1, m), (2, m), (3, m)]) MODEL_PREFERENCES)"
    by blast
  then show ?thesis by (simp add: MODEL_PREFERENCES_def world0_def)
qed

section \<open>Properties of the runner\<close>

subsection \<open>What a call of editImage and a step leave behind\<close>

lemma edits_append: "edits (xs @ ys) = edits xs @ edits ys"
  by (induction xs rule: edits.induct) auto

lemma generate_edits: "generate e m b mt p w = (r, w1) \<Longrightarrow> edits (trace w1) = edits (trace w)"
  by (auto simp: generate_def Let_def edits_append split: if_splits reply.splits)

lemma loop_edits:
  "attemptGenerate_loop e m b mt p k w = (r, w1) \<Longrightarrow> edits (trace w1) = edits (trace w)"
proof (induction e m b mt p k w rule: attemptGenerate_loop.induct)
  case (1 e model base64Data mt prompt attempt w)
  show ?case
  proof (cases "attempt \<le> MAX_RETRIES")
    case False
    with "1.prems" show ?thesis by (simp add: attemptGenerate_loop.simps)
  next
    case le: True
    obtain g wg where g: "generate e model base64Data mt prompt w = (g, wg)" by force
    note ge = generate_edits [OF g]
    show ?thesis
    proof (cases g)
      case (Inr res)
      with "1.prems" g le ge show ?thesis by (simp add: attemptGenerate_loop.simps)
    next
      case (Inl err)
      let ?d = "backoff (message_of err) (Suc attempt)"
      let ?w2 = "wg\<lparr>trace := trace wg @ [Retry (Suc attempt) ?d model]\<rparr>"
      show ?thesis
      proof (cases "isQuota (message_of err) \<and> Suc attempt \<le> MAX_RETRIES
                     \<and> \<not> aborted e ?w2 \<and> \<not> aborted e (sleep ?d ?w2)")
        case True
        then have rec: "attemptGenerate_loop e model base64Data mt prompt (Suc attempt) (sleep ?d ?w2) = (r, w1)"
          using "1.prems" g le Inl by (simp add: attemptGenerate_loop.simps [of _ _ _ _ _ attempt] Let_def)
        have "edits (trace w1) = edits (trace (sleep ?d ?w2))"
          using "1.IH" [OF le g [symmetric] Inl _ refl _ refl _ rec] True by simp
        then show ?thesis using ge by (simp add: sleep_def edits_append)
      next
        case False
        then show ?thesis
          using "1.prems" g le Inl ge
          by (auto simp: attemptGenerate_loop.simps [of _ _ _ _ _ attempt] Let_def edits_append sleep_def
                   split: if_splits thrown.splits)
      qed
    qed
  qed
qed


lemma try_models_edits:
  "try_models e ms b mt p fails w = (r, w1) \<Longrightarrow> edits (trace w1) = edits (trace w)"
proof (induction ms arbitrary: fails w)
  case Nil
  then show ?case by simp
next
  case (Cons m ms)
  obtain a wa where a: "attemptGenerate e m b mt p w = (a, wa)" by force
  then have ea: "edits (trace wa) = edits (trace w)"
    unfolding attemptGenerate_def by (rule loop_edits)
  show ?case
  proof (cases a)
    case (Inl ex)
    show ?thesis
    proof (cases ex)
      case (Error msg)
      with Cons.prems a Inl ea show ?thesis by simp
    next
      case (QuotaError msg d)
      with Cons.prems a Inl have "try_models e ms b mt p (AList.update m (Failure ''quota'' (Some d)) fails) wa = (r, w1)"
        by simp
      from Cons.IH [OF this] ea show ?thesis by simp
    qed
  next
    case (Inr res)
    show ?thesis
    proof (cases "success res \<and> truthy (result res)")
      case True
      with Cons.prems a Inr ea show ?thesis by simp
    next
      case False
      show ?thesis
      proof (cases "aborted e wa \<or> aborted e (sleep (Millis 250) wa)")
        case True
        with Cons.prems a Inr False ea show ?thesis
          by (auto simp: Let_def sleep_def edits_append split: if_splits)
      next
        case na: False
        with Cons.prems a Inr False
        have "try_models e ms b mt p
                (AList.update m (Failure ''quota_or_rate_limit_or_no_result'' None) fails)
                (sleep (Millis 250) wa) = (r, w1)"
          by (simp add: Let_def)
        from Cons.IH [OF this] ea show ?thesis by (simp add: sleep_def edits_append)
      qed
    qed
  qed
qed

lemma editImage_edits:
  "editImage e u p w = (r, w1) \<Longrightarrow> edits (trace w1) = edits (trace w) @ [p]"
  by (auto simp: editImage_def Let_def edits_append split: if_splits sum.splits prod.splits
           dest!: try_models_edits)

lemma fold_onRetry_keeps:
  "logs (fold onRetry evs st) = logs st \<and> outputs (fold onRetry evs st) = outputs st
   \<and> error (fold onRetry evs st) = error st"
proof (induction evs arbitrary: st)
  case Nil
  show ?case by simp
next
  case (Cons ev evs)
  show ?case by (cases ev) (simp_all add: Cons.IH)
qed

lemma during_call_keeps [simp]:
  "logs (during_call w w1 st) = logs st" "outputs (during_call w w1 st) = outputs st"
  "error (during_call w w1 st) = error st"
  by (simp_all add: during_call_def fold_onRetry_keeps)

lemma names_quota: "names_step_and_image (quota_error_text step img) step img"
proof -
  let ?rest = "''. Please check your Google Cloud billing and Gemini API quotas: ''
               @ ''https://ai.google.dev/gemini-api/docs/rate-limits''"
  have "sublist (name step)
          ((''Quota exceeded while processing '' @ [CHR 0x22]) @ name step
           @ ([CHR 0x22] @ '' for '' @ [CHR 0x22] @ file_name img @ [CHR 0x22] @ ?rest))"
    by (rule sublist_appendI)
  moreover have "sublist (file_name img)
          ((''Quota exceeded while processing '' @ [CHR 0x22] @ name step @ [CHR 0x22] @ '' for ''
            @ [CHR 0x22]) @ file_name img @ ([CHR 0x22] @ ?rest))"
    by (rule sublist_appendI)
  ultimately show ?thesis
    by (simp add: names_step_and_image_def quota_error_text_def del: sublist_appendI)
qed

lemma names_error: "names_step_and_image (step_error_text step img m) step img"
proof -
  have "sublist (name step)
          ((''Error on '' @ [CHR 0x22]) @ name step
           @ ([CHR 0x22] @ '' for '' @ [CHR 0x22] @ file_name img @ [CHR 0x22] @ '': '' @ m))"
    by (rule sublist_appendI)
  moreover have "sublist (file_name img)
          ((''Error on '' @ [CHR 0x22] @ name step @ [CHR 0x22] @ '' for '' @ [CHR 0x22])
           @ file_name img @ ([CHR 0x22] @ '': '' @ m))"
    by (rule sublist_appendI)
  ultimately show ?thesis
    by (simp add: names_step_and_image_def step_error_text_def del: sublist_appendI)
qed

lemma run_steps_Cons_ok:
  assumes "editImage e cur (prompt step) w = (Inr res, w1)"
  shows "\<exists>st3. run_steps e img len (step # rest) i cur st w
                 = run_steps e img len rest (Suc i) res st3 w1
           \<and> logs st3 = logs st @ [success_log img step]
           \<and> outputs st3 = outputs st
                @ (if Suc i = len
                   then [\<lparr>originalImageId = image_id img, originalFileName = file_name img,
                          out_dataUrl = res\<rparr>]
                   else [])
           \<and> error st3 = error st"
proof -
  let ?st2 = "addLogEntry (success_log img step) ((during_call w w1 st)\<lparr>retryInfo := None\<rparr>)"
  let ?st3 = "if Suc i = len
              then ?st2\<lparr>outputs := outputs ?st2
                     @ [\<lparr>originalImageId = image_id img, originalFileName = file_name img,
                         out_dataUrl = res\<rparr>]\<rparr>
              else ?st2"
  show ?thesis
    using assms
    by (intro exI [of _ ?st3]) (simp add: run_steps.simps Let_def addLogEntry_def success_log_def)
qed

lemma run_steps_Cons_bad:
  assumes "editImage e cur (prompt step) w = (Inl ex, w1)"
  shows "run_steps e img len (step # rest) i cur st w
           = (Some (fst (on_failure ex step img (during_call w w1 st))),
              snd (on_failure ex step img (during_call w w1 st)), w1)"
  using assms by (simp add: run_steps.simps split: prod.splits)

lemma run_steps_none:
  assumes "run_steps e img len ss i cur st w = (None, st', w')" and "i + length ss = len"
  shows "logs st' = logs st @ map (success_log img) ss
         \<and> edits (trace w') = edits (trace w) @ map prompt ss
         \<and> map originalImageId (outputs st')
             = map originalImageId (outputs st) @ (if ss = [] then [] else [image_id img])"
  using assms
proof (induction ss arbitrary: i cur st w)
  case Nil
  then show ?case by (simp add: run_steps.simps)
next
  case (Cons step rest)
  obtain r w1 where ed: "editImage e cur (prompt step) w = (r, w1)" by force
  show ?case
  proof (cases r)
    case (Inl ex)
    with Cons.prems(1) run_steps_Cons_bad [of e cur step w ex w1] ed show ?thesis by simp
  next
    case (Inr res)
    from run_steps_Cons_ok [of e cur step w res w1 img len rest i st] ed Inr
    obtain st3 where rs: "run_steps e img len (step # rest) i cur st w
                 = run_steps e img len rest (Suc i) res st3 w1"
      and l3: "logs st3 = logs st @ [success_log img step]"
      and o3: "outputs st3 = outputs st
                @ (if Suc i = len
                   then [\<lparr>originalImageId = image_id img, originalFileName = file_name img,
                          out_dataUrl = res\<rparr>]
                   else [])"
      by auto
    have rec: "run_steps e img len rest (Suc i) res st3 w1 = (None, st', w')"
      using Cons.prems(1) rs by simp
    have len: "Suc i + length rest = len" using Cons.prems(2) by simp
    note IH = Cons.IH [OF rec len]
    have ee: "edits (trace w1) = edits (trace w) @ [prompt step]"
      using editImage_edits [OF ed] .
    have "(Suc i = len) = (rest = [])" using len by auto
    then show ?thesis using IH l3 o3 ee by auto
  qed
qed

lemma getExecutionOrder_logs:
  "getExecutionOrder nodes connections st = Some (r, st1) \<Longrightarrow> logs st1 = logs st"
  by (auto simp: getExecutionOrder_def split: if_splits prod.splits option.splits)

lemma pass_steps_run:
  assumes "pass_steps e ss cur w = Some (cur', w')" and "i + length ss \<le> len"
  shows "\<exists>st'. run_steps e img len (ss @ rest) i cur st w
                  = run_steps e img len rest (i + length ss) cur' st' w'
           \<and> logs st' = logs st @ map (success_log img) ss
           \<and> outputs st' = outputs st
                @ (if ss \<noteq> [] \<and> i + length ss = len then [output_of img cur'] else [])
           \<and> error st' = error st
           \<and> edits (trace w') = edits (trace w) @ map prompt ss"
  using assms
proof (induction ss arbitrary: i cur st w)
  case Nil
  then show ?case by (intro exI [of _ st]) simp
next
  case (Cons step ss)
  obtain r w1 where ed: "editImage e cur (prompt step) w = (r, w1)" by force
  with Cons.prems(1) obtain res where r: "r = Inr res"
    and ps: "pass_steps e ss res w1 = Some (cur', w')"
    by (cases r) auto
  from run_steps_Cons_ok [of e cur step w res w1 img len "ss @ rest" i st] ed r
  obtain st3 where rs: "run_steps e img len (step # ss @ rest) i cur st w
                 = run_steps e img len (ss @ rest) (Suc i) res st3 w1"
    and l3: "logs st3 = logs st @ [success_log img step]"
    and o3: "outputs st3 = outputs st
              @ (if Suc i = len
                 then [\<lparr>originalImageId = image_id img, originalFileName = file_name img,
                        out_dataUrl = res\<rparr>]
                 else [])"
    and e3: "error st3 = error st"
    by auto
  have len: "Suc i + length ss \<le> len" using Cons.prems(2) by simp
  from Cons.IH [OF ps len, of st3]
  obtain st' where rs': "run_steps e img len (ss @ rest) (Suc i) res st3 w1
                  = run_steps e img len rest (Suc i + length ss) cur' st' w'"
    and l: "logs st' = logs st3 @ map (success_log img) ss"
    and o: "outputs st' = outputs st3
                @ (if ss \<noteq> [] \<and> Suc i + length ss = len then [output_of img cur'] else [])"
    and er: "error st' = error st3"
    and ed': "edits (trace w') = edits (trace w1) @ map prompt ss"
    by blast
  have ee: "edits (trace w1) = edits (trace w) @ [prompt step]"
    using editImage_edits [OF ed] .
  have c: "ss = [] \<Longrightarrow> cur' = res" using ps by simp
  have o': "outputs st' = outputs st
                @ (if i + length (step # ss) = len then [output_of img cur'] else [])"
  proof (cases "ss = []")
    case True
    then show ?thesis using o o3 c by (simp add: output_of_def)
  next
    case False
    then have "Suc i \<noteq> len" using len by (cases ss) auto
    then show ?thesis using o o3 False by simp
  qed
  show ?case
    using rs rs' l l3 o' er e3 ed' ee by (intro exI [of _ st']) simp
qed

lemma pass_images_run:
  assumes "pass_images e done workflow w = Some (rs, w')" and "workflow \<noteq> []"
  shows "\<exists>st'. run_images e (done @ rest) workflow st w = run_images e rest workflow st' w'
           \<and> logs st' = logs st @ concat (map (\<lambda>img. map (success_log img) workflow) done)
           \<and> outputs st' = outputs st @ map2 output_of done rs
           \<and> error st' = error st
           \<and> edits (trace w') = edits (trace w) @ concat (replicate (length done) (map prompt workflow))"
  using assms
proof (induction "done" arbitrary: st w rs)
  case Nil
  then show ?case by (intro exI [of _ st]) simp
next
  case (Cons img imgs)
  from Cons.prems(1) obtain res w1 rs1 where na: "\<not> aborted e w"
    and ps: "pass_steps e workflow (dataUrl img) w = Some (res, w1)"
    and pi: "pass_images e imgs workflow w1 = Some (rs1, w')"
    and rs: "rs = res # rs1"
    by (auto split: if_splits option.splits prod.splits)
  from pass_steps_run [OF ps, of 0 "length workflow" img "[]" st] Cons.prems(2)
  obtain st1 where r1: "run_steps e img (length workflow) workflow 0 (dataUrl img) st w
                         = (None, st1, w1)"
    and l1: "logs st1 = logs st @ map (success_log img) workflow"
    and o1: "outputs st1 = outputs st @ [output_of img res]"
    and e1: "error st1 = error st"
    and d1: "edits (trace w1) = edits (trace w) @ map prompt workflow"
    by (auto simp: run_steps.simps)
  from Cons.IH [OF pi Cons.prems(2), of st1]
  obtain st' where r2: "run_images e (imgs @ rest) workflow st1 w1 = run_images e rest workflow st' w'"
    and l2: "logs st' = logs st1 @ concat (map (\<lambda>img. map (success_log img) workflow) imgs)"
    and o2: "outputs st' = outputs st1 @ map2 output_of imgs rs1"
    and e2: "error st' = error st1"
    and d2: "edits (trace w') = edits (trace w1) @ concat (replicate (length imgs) (map prompt workflow))"
    by blast
  have "run_images e ((img # imgs) @ rest) workflow st w = run_images e rest workflow st' w'"
    using na r1 r2 by (simp add: run_images.simps)
  then show ?case
    using l1 l2 o1 o2 e1 e2 d1 d2 rs by (intro exI [of _ st']) simp
qed


lemma on_failure_fatal:
  assumes "ex = QuotaError m d \<or> ex = Error m" and "m \<noteq> ''Request aborted''"
  shows "\<exists>st1. on_failure ex step img st = (Failed, st1)
           \<and> logs st1 = logs st @ [failure_log img step]
           \<and> outputs st1 = outputs st
           \<and> error st1 = Some (case ex of QuotaError t fs \<Rightarrow> quota_error_text step img
                                 | Error t \<Rightarrow> step_error_text step img t)
           \<and> notification st1 = (case ex of QuotaError t fs \<Rightarrow> Some QuotaNotice
                                   | Error t \<Rightarrow> notification st)"
  using assms
  by (auto simp: on_failure_def Let_def addLogEntry_def failure_log_def)

text \<open>
  C8. The images of \<open>done\<close> have completed every step, the run is not cancelled when the
  turn of \<open>img\<close> comes, the steps \<open>pre\<close> succeed on \<open>img\<close>, and \<open>editImage\<close> then throws for
  \<open>step\<close> a \<open>QuotaError\<close> or an \<open>Error\<close> whose message is not that of the cancellation. Then
  \<open>executeWorkflow\<close> ends in the failure branch and leaves the world as it is right after the
  throwing call: no later step of \<open>img\<close> and no later image is attempted. The log is the old
  log, one success entry for each completed step, and exactly one failure entry (cost 0,
  credits 0) for \<open>step\<close> and \<open>img\<close> at its end; the outputs are those of the images of \<open>done\<close>,
  with their final data URLs; the error is the quota text for a \<open>QuotaError\<close> and the step
  error text with the message otherwise, and it names the step and the image; \<open>editImage\<close>
  has been called for exactly these steps.
\<close>

theorem first_failure_halts_run:
  assumes order: "getExecutionOrder nodes connections (st\<lparr>error := None\<rparr>)
                    = Some (Some (pre @ step # post), st0)"
      and key: "isApiKeySet w"
      and env: "e = \<lparr>backend = provider, signal = map_option (\<lambda>c. tick w + Suc c) cancel\<rparr>"
      and before: "pass_images e done (pre @ step # post) w = Some (rs, w1)"
      and reached: "\<not> aborted e w1"
      and steps: "pass_steps e pre (dataUrl img) w1 = Some (cur, w2)"
      and fails: "editImage e cur (prompt step) w2 = (Inl ex, w3)"
      and fatal: "ex = QuotaError m d \<or> ex = Error m"
      and other: "m \<noteq> ''Request aborted''"
  shows "\<exists>st'. executeWorkflow provider cancel nodes connections (done @ img # later) st w
                  = Some (Failed, st', w3)
           \<and> logs st' = logs st
                 @ concat (map (\<lambda>i. map (success_log i) (pre @ step # post)) done)
                 @ map (success_log img) pre
                 @ [\<lparr>imageName = file_name img, nodeName = name step, status = Failure_status,
                     cost = 0, credits = 0\<rparr>]
           \<and> outputs st' = map2 output_of done rs
           \<and> error st' = Some (case ex of QuotaError t fs \<Rightarrow> quota_error_text step img
                                 | Error t \<Rightarrow> step_error_text step img t)
           \<and> (\<exists>msg. error st' = Some msg \<and> names_step_and_image msg step img)
           \<and> edits (trace w3)
               = edits (trace w) @ concat (replicate (length done) (map prompt (pre @ step # post)))
                 @ map prompt pre @ [prompt step]"
proof -
  let ?wf = "pre @ step # post"
  let ?st = "st0\<lparr>abortController := True, retryInfo := None, isLoading := True, outputs := []\<rparr>"
  have l0: "logs ?st = logs st" using getExecutionOrder_logs [OF order] by simp
  have ne: "?wf \<noteq> []" by simp
  from pass_images_run [OF before ne, of "img # later" ?st]
  obtain sa where ra: "run_images e (done @ img # later) ?wf ?st w = run_images e (img # later) ?wf sa w1"
    and la: "logs sa = logs ?st @ concat (map (\<lambda>i. map (success_log i) ?wf) done)"
    and oa: "outputs sa = outputs ?st @ map2 output_of done rs"
    and da: "edits (trace w1) = edits (trace w) @ concat (replicate (length done) (map prompt ?wf))"
    by blast
  have len: "0 + length pre \<le> length ?wf" by simp
  from pass_steps_run [OF steps len, of img "step # post" sa]
  obtain sb where rb: "run_steps e img (length ?wf) ?wf 0 (dataUrl img) sa w1
                         = run_steps e img (length ?wf) (step # post) (length pre) cur sb w2"
    and lb: "logs sb = logs sa @ map (success_log img) pre"
    and ob: "outputs sb = outputs sa"
    and db: "edits (trace w2) = edits (trace w1) @ map prompt pre"
    by auto
  let ?sc = "during_call w2 w3 sb"
  from on_failure_fatal [OF fatal other, of step img ?sc]
  obtain sd where f: "on_failure ex step img ?sc = (Failed, sd)"
    and ld: "logs sd = logs ?sc @ [failure_log img step]"
    and od: "outputs sd = outputs ?sc"
    and ed: "error sd = Some (case ex of QuotaError t fs \<Rightarrow> quota_error_text step img
                                 | Error t \<Rightarrow> step_error_text step img t)"
    by blast
  have rc: "run_steps e img (length ?wf) (step # post) (length pre) cur sb w2 = (Some Failed, sd, w3)"
    using run_steps_Cons_bad [OF fails, of img "length ?wf" post "length pre" sb] f by simp
  have ri: "run_images e (done @ img # later) ?wf ?st w = (Failed, sd, w3)"
    using ra rb rc reached by (simp add: run_images.simps)
  have ex: "executeWorkflow provider cancel nodes connections (done @ img # later) st w
              = Some (Failed, sd\<lparr>isLoading := False, abortController := False\<rparr>, w3)"
    using order key ri [unfolded env] by (simp add: executeWorkflow_def)
  have nm: "names_step_and_image (case ex of QuotaError t fs \<Rightarrow> quota_error_text step img
                                 | Error t \<Rightarrow> step_error_text step img t) step img"
    using fatal names_quota [of step img] names_error [of step img] by auto
  have de: "edits (trace w3) = edits (trace w2) @ [prompt step]"
    using editImage_edits [OF fails] .
  show ?thesis
    using ex l0 la lb ld oa ob od ed nm da db de
    by (intro exI [of _ "sd\<lparr>isLoading := False, abortController := False\<rparr>"])
       (simp add: failure_log_def)
qed


theorem first_failure_halts_run_witness:
  "(\<exists>st' w3.
      executeWorkflow (provider_quota_for ''WVlZ'') None [step_of ''A'', step_of ''B'']
          [edge ''A'' ''B''] [image_of ''x'', image_y, image_of ''z''] state0 world0
        = Some (Failed, st', w3)
      \<and> logs st' = [success_log (image_of ''x'') (step_of ''A''),
                     success_log (image_of ''x'') (step_of ''B''),
                     \<lparr>imageName = ''y.png'', nodeName = ''step A'', status = Failure_status,
                      cost = 0, credits = 0\<rparr>]
      \<and> outputs st' = [output_of (image_of ''x'') ''data:image/png;base64,QUJD'']
      \<and> error st' = Some (quota_error_text (step_of ''A'') image_y)
      \<and> edits (trace w3) = [''do A'', ''do B'', ''do A''])
   \<and> (\<exists>st'.
      executeWorkflow provider_blocks_fourth None [step_of ''A'', step_of ''B'']
          [edge ''A'' ''B''] [image_of ''x'', image_y, image_of ''z''] state0 world0
        = Some (Failed, st',
                world0\<lparr>tick := 4,
                  trace := [EditImage ''do A'', Call ''gemini-2.0-flash-preview-image-generation'',
                            EditImage ''do B'', Call ''gemini-2.0-flash-preview-image-generation'',
                            EditImage ''do A'', Call ''gemini-2.0-flash-preview-image-generation'',
                            EditImage ''do B'', Call ''gemini-2.0-flash-preview-image-generation'']\<rparr>)
      \<and> logs st' = [success_log (image_of ''x'') (step_of ''A''),
                     success_log (image_of ''x'') (step_of ''B''),
                     success_log image_y (step_of ''A''),
                     \<lparr>imageName = ''y.png'', nodeName = ''step B'', status = Failure_status,
                      cost = 0, credits = 0\<rparr>]
      \<and> outputs st' = [output_of (image_of ''x'') ''data:image/png;base64,QUJD'']
      \<and> error st' = Some (step_error_text (step_of ''B'') image_y
            ''AI processing failed: Request blocked by safety policy: SAFETY. Please adjust the image or prompt.''))"
proof -
  let ?A = "step_of ''A''" and ?B = "step_of ''B''"
  let ?m = "''gemini-2.0-flash-preview-image-generation''"
  let ?w1 = "world0\<lparr>tick := 2, trace := [EditImage ''do A'', Call ?m, EditImage ''do B'', Call ?m]\<rparr>"
  have order: "getExecutionOrder [?A, ?B] [edge ''A'' ''B''] (state0\<lparr>error := None\<rparr>)
                 = Some (Some ([] @ ?A # [?B]), state0)"
    by code_simp
  have order2: "getExecutionOrder [?A, ?B] [edge ''A'' ''B''] (state0\<lparr>error := None\<rparr>)
                 = Some (Some ([?A] @ ?B # []), state0)"
    by code_simp
  have key: "isApiKeySet world0" by (simp add: isApiKeySet_def world0_def)
  \<comment> \<open>a quota error on the first step of the second image\<close>
  let ?e = "\<lparr>backend = provider_quota_for ''WVlZ'',
             signal = map_option (\<lambda>c. tick world0 + Suc c) None\<rparr>"
  have before: "pass_images ?e [image_of ''x''] ([] @ ?A # [?B]) world0
                  = Some ([''data:image/png;base64,QUJD''], ?w1)"
    by code_simp
  have reached: "\<not> aborted ?e ?w1" by (simp add: aborted_def)
  have steps: "pass_steps ?e [] (dataUrl image_y) ?w1 = Some (''data:image/png;base64,WVlZ'', ?w1)"
    by (simp add: image_y_def)
  have k1: "ai ?w1 \<noteq> None" by (simp add: world0_def)
  have url: "parseDataUrl ''data:image/png;base64,WVlZ'' = Inr (''WVlZ'', ''image/png'')"
    by code_simp
  have q: "isQuota ''429 RESOURCE_EXHAUSTED''" by code_simp
  have allq: "\<forall>n m. \<exists>x. backend ?e n \<lparr>rq_model = m, rq_data = ''WVlZ'', rq_mimeType = ''image/png'',
                                        rq_prompt = prompt ?A\<rparr> = Rejects x \<and> isQuota (message_of x)"
    using q by (simp add: provider_quota_for_def)
  from editImage_all_quota [OF k1 _ url allq]
  obtain w3 where fails: "editImage ?e ''data:image/png;base64,WVlZ'' (prompt ?A) ?w1
      = (Inl (QuotaError quota_message (map (\<lambda>m. (m, quota_reason)) MODEL_PREFERENCES)), w3)"
    by auto
  have other: "quota_message \<noteq> ''Request aborted''" by (simp add: quota_message_def)
  from first_failure_halts_run [OF order key refl before reached steps fails disjI1 [OF refl] other,
         of "[image_of ''z'']"]
  obtain st' where
    "executeWorkflow (provider_quota_for ''WVlZ'') None [?A, ?B] [edge ''A'' ''B'']
        [image_of ''x'', image_y, image_of ''z''] state0 world0 = Some (Failed, st', w3)"
    "logs st' = logs state0 @ concat (map (\<lambda>i. map (success_log i) ([] @ ?A # [?B])) [image_of ''x''])
                 @ map (success_log image_y) []
                 @ [\<lparr>imageName = file_name image_y, nodeName = name ?A, status = Failure_status,
                     cost = 0, credits = 0\<rparr>]"
    "outputs st' = map2 output_of [image_of ''x''] [''data:image/png;base64,QUJD'']"
    "error st' = Some (quota_error_text ?A image_y)"
    "edits (trace w3)
       = edits (trace world0) @ concat (replicate (length [image_of ''x'']) (map prompt ([] @ ?A # [?B])))
         @ map prompt [] @ [prompt ?A]"
    by auto
  then have part1: "\<exists>st' w3.
      executeWorkflow (provider_quota_for ''WVlZ'') None [?A, ?B]
          [edge ''A'' ''B''] [image_of ''x'', image_y, image_of ''z''] state0 world0
        = Some (Failed, st', w3)
      \<and> logs st' = [success_log (image_of ''x'') ?A, success_log (image_of ''x'') ?B,
                     \<lparr>imageName = ''y.png'', nodeName = ''step A'', status = Failure_status,
                      cost = 0, credits = 0\<rparr>]
      \<and> outputs st' = [output_of (image_of ''x'') ''data:image/png;base64,QUJD'']
      \<and> error st' = Some (quota_error_text ?A image_y)
      \<and> edits (trace w3) = [''do A'', ''do B'', ''do A'']"
    by (intro exI [of _ st'] exI [of _ w3])
       (simp add: state0_def world0_def image_y_def step_of_def)
  \<comment> \<open>a policy rejection on the second step of the second image\<close>
  let ?f = "\<lparr>backend = provider_blocks_fourth,
             signal = map_option (\<lambda>c. tick world0 + Suc c) None\<rparr>"
  let ?w2 = "world0\<lparr>tick := 3, trace := [EditImage ''do A'', Call ?m, EditImage ''do B'', Call ?m,
                                          EditImage ''do A'', Call ?m]\<rparr>"
  let ?w3 = "world0\<lparr>tick := 4, trace := [EditImage ''do A'', Call ?m, EditImage ''do B'', Call ?m,
                                          EditImage ''do A'', Call ?m, EditImage ''do B'', Call ?m]\<rparr>"
  let ?t = "''AI processing failed: Request blocked by safety policy: SAFETY. Please adjust the image or prompt.''"
  have before2: "pass_images ?f [image_of ''x''] ([?A] @ ?B # []) world0
                  = Some ([''data:image/png;base64,QUJD''], ?w1)"
    by code_simp
  have reached2: "\<not> aborted ?f ?w1" by (simp add: aborted_def)
  have steps2: "pass_steps ?f [?A] (dataUrl image_y) ?w1 = Some (''data:image/png;base64,QUJD'', ?w2)"
    by code_simp
  have fails2: "editImage ?f ''data:image/png;base64,QUJD'' (prompt ?B) ?w2 = (Inl (Error ?t), ?w3)"
    by code_simp
  have other2: "?t \<noteq> ''Request aborted''" by simp
  from first_failure_halts_run [OF order2 key refl before2 reached2 steps2 fails2 disjI2 [OF refl] other2,
         of "[image_of ''z'']"]
  obtain st2 where
    "executeWorkflow provider_blocks_fourth None [?A, ?B] [edge ''A'' ''B'']
        [image_of ''x'', image_y, image_of ''z''] state0 world0 = Some (Failed, st2, ?w3)"
    "logs st2 = logs state0 @ concat (map (\<lambda>i. map (success_log i) ([?A] @ ?B # [])) [image_of ''x''])
                 @ map (success_log image_y) [?A]
                 @ [\<lparr>imageName = file_name image_y, nodeName = name ?B, status = Failure_status,
                     cost = 0, credits = 0\<rparr>]"
    "outputs st2 = map2 output_of [image_of ''x''] [''data:image/png;base64,QUJD'']"
    "error st2 = Some (step_error_text ?B image_y ?t)"
    by auto
  then have part2: "\<exists>st'.
      executeWorkflow provider_blocks_fourth None [?A, ?B]
          [edge ''A'' ''B''] [image_of ''x'', image_y, image_of ''z''] state0 world0
        = Some (Failed, st', ?w3)
      \<and> logs st' = [success_log (image_of ''x'') ?A, success_log (image_of ''x'') ?B,
                     success_log image_y ?A,
                     \<lparr>imageName = ''y.png'', nodeName = ''step B'', status = Failure_status,
                      cost = 0, credits = 0\<rparr>]
      \<and> outputs st' = [output_of (image_of ''x'') ''data:image/png;base64,QUJD'']
      \<and> error st' = Some (step_error_text ?B image_y ?t)"
    by (intro exI [of _ st2]) (simp add: state0_def image_y_def step_of_def)
  from part1 part2 show ?thesis by (rule conjI)
qed


subsection \<open>Errors that are no quota errors\<close>





























lemma last_new_event:
  "trace w' = trace w @ evs \<Longrightarrow> evs = pre @ [ev] \<Longrightarrow> last (trace w') = ev"
  by simp





subsection \<open>Cancellation\<close>

text \<open>Every network call and every sleep is entered right after a check of the signal, so
  the clock never passes the tick at which the signal is set.\<close>

lemma generate_tick:
  assumes "signal e = Some t" and "tick w \<le> t" and "generate e m b mt p w = (r, w1)"
  shows "tick w1 \<le> t"
  using assms by (auto simp: generate_def Let_def aborted_iff split: if_splits reply.splits)

lemma loop_tick:
  "signal e = Some t \<Longrightarrow> tick w \<le> t \<Longrightarrow> attemptGenerate_loop e m b mt p k w = (r, w1)
     \<Longrightarrow> tick w1 \<le> t"
proof (induction e m b mt p k w rule: attemptGenerate_loop.induct)
  case (1 e model base64Data mt prompt attempt w)
  note sig = "1.prems"(1) and tw = "1.prems"(2) and run = "1.prems"(3)
  show ?case
  proof (cases "attempt \<le> MAX_RETRIES")
    case False
    with tw run show ?thesis by (simp add: attemptGenerate_loop.simps)
  next
    case le: True
    obtain g wg where g: "generate e model base64Data mt prompt w = (g, wg)" by force
    have tg: "tick wg \<le> t" using generate_tick [OF sig tw g] .
    show ?thesis
    proof (cases g)
      case (Inr res)
      with run g le tg show ?thesis by (simp add: attemptGenerate_loop.simps)
    next
      case (Inl err)
      let ?d = "backoff (message_of err) (Suc attempt)"
      let ?w2 = "wg\<lparr>trace := trace wg @ [Retry (Suc attempt) ?d model]\<rparr>"
      show ?thesis
      proof (cases "isQuota (message_of err) \<and> Suc attempt \<le> MAX_RETRIES
                     \<and> \<not> aborted e ?w2 \<and> \<not> aborted e (sleep ?d ?w2)")
        case True
        then have rec: "attemptGenerate_loop e model base64Data mt prompt (Suc attempt) (sleep ?d ?w2) = (r, w1)"
          using run g le Inl by (simp add: attemptGenerate_loop.simps [of _ _ _ _ _ attempt] Let_def)
        have ts: "tick (sleep ?d ?w2) \<le> t"
          using True tg sig by (auto simp: aborted_iff sleep_def)
        show ?thesis
          using "1.IH" [OF le g [symmetric] Inl _ refl _ refl _ sig ts rec] True by simp
      next
        case False
        have "tick (sleep ?d ?w2) \<le> t" if "\<not> aborted e ?w2"
          using that tg sig by (auto simp: aborted_iff sleep_def)
        with False show ?thesis
          using run g le Inl tg
          by (auto simp: attemptGenerate_loop.simps [of _ _ _ _ _ attempt] Let_def
                   split: if_splits thrown.splits)
      qed
    qed
  qed
qed


lemma try_models_tick:
  "signal e = Some t \<Longrightarrow> tick w \<le> t \<Longrightarrow> try_models e ms b mt p fails w = (r, w1)
     \<Longrightarrow> tick w1 \<le> t"
proof (induction ms arbitrary: fails w)
  case Nil
  then show ?case by simp
next
  case (Cons m ms)
  note sig = Cons.prems(1)
  obtain a wa where a: "attemptGenerate e m b mt p w = (a, wa)" by force
  then have ta: "tick wa \<le> t"
    unfolding attemptGenerate_def using loop_tick [OF sig Cons.prems(2)] by blast
  show ?case
  proof (cases a)
    case (Inl ex)
    show ?thesis
    proof (cases ex)
      case (Error msg)
      with Cons.prems a Inl ta show ?thesis by simp
    next
      case (QuotaError msg d)
      with Cons.prems a Inl
      have "try_models e ms b mt p (AList.update m (Failure ''quota'' (Some d)) fails) wa = (r, w1)"
        by simp
      from Cons.IH [OF sig ta this] show ?thesis .
    qed
  next
    case (Inr res)
    show ?thesis
    proof (cases "success res \<and> truthy (result res)")
      case True
      with Cons.prems a Inr ta show ?thesis by simp
    next
      case False
      show ?thesis
      proof (cases "aborted e wa")
        case True
        with Cons.prems a Inr False ta show ?thesis by (simp add: Let_def)
      next
        case na: False
        then have ts: "tick (sleep (Millis 250) wa) \<le> t"
          using ta sig by (auto simp: aborted_iff sleep_def)
        show ?thesis
        proof (cases "aborted e (sleep (Millis 250) wa)")
          case True
          with Cons.prems a Inr False na ts show ?thesis by (simp add: Let_def)
        next
          case False2: False
          with Cons.prems a Inr False na
          have "try_models e ms b mt p
                  (AList.update m (Failure ''quota_or_rate_limit_or_no_result'' None) fails)
                  (sleep (Millis 250) wa) = (r, w1)"
            by (simp add: Let_def)
          from Cons.IH [OF sig ts this] show ?thesis .
        qed
      qed
    qed
  qed
qed

lemma editImage_tick:
  "signal e = Some t \<Longrightarrow> tick w \<le> t \<Longrightarrow> editImage e u p w = (r, w1) \<Longrightarrow> tick w1 \<le> t"
  by (auto simp: editImage_def Let_def split: if_splits sum.splits prod.splits
           dest!: try_models_tick [rotated 2])

lemma run_steps_tick:
  "signal e = Some t \<Longrightarrow> tick w \<le> t \<Longrightarrow> run_steps e img len ss i cur st w = (r, st', w')
     \<Longrightarrow> tick w' \<le> t"
proof (induction ss arbitrary: i cur st w)
  case Nil
  then show ?case by (simp add: run_steps.simps)
next
  case (Cons step rest)
  obtain x w1 where ed: "editImage e cur (prompt step) w = (x, w1)" by force
  have t1: "tick w1 \<le> t" using editImage_tick [OF Cons.prems(1,2) ed] .
  show ?case
  proof (cases x)
    case (Inl ex)
    with Cons.prems(3) run_steps_Cons_bad [of e cur step w ex w1 img len rest i st] ed t1
    show ?thesis by simp
  next
    case (Inr res)
    from run_steps_Cons_ok [of e cur step w res w1 img len rest i st] ed Inr
    obtain st3 where "run_steps e img len (step # rest) i cur st w
                 = run_steps e img len rest (Suc i) res st3 w1" by auto
    with Cons.prems(3) have "run_steps e img len rest (Suc i) res st3 w1 = (r, st', w')" by simp
    from Cons.IH [OF Cons.prems(1) t1 this] show ?thesis .
  qed
qed

lemma run_images_tick:
  "signal e = Some t \<Longrightarrow> tick w \<le> t \<Longrightarrow> run_images e images workflow st w = (fin, st', w')
     \<Longrightarrow> tick w' \<le> t"
proof (induction images arbitrary: st w)
  case Nil
  then show ?case by (simp add: run_images.simps)
next
  case (Cons img rest)
  show ?case
  proof (cases "aborted e w")
    case True
    with Cons.prems show ?thesis by (simp add: run_images.simps)
  next
    case False
    obtain r st1 w1 where rs: "run_steps e img (length workflow) workflow 0 (dataUrl img) st w = (r, st1, w1)"
      by (metis prod_cases3)
    have t1: "tick w1 \<le> t" using run_steps_tick [OF Cons.prems(1,2) rs] .
    show ?thesis
    proof (cases r)
      case (Some f)
      with Cons.prems(3) False rs t1 show ?thesis by (simp add: run_images.simps)
    next
      case None
      with Cons.prems(3) False rs have "run_images e rest workflow st1 w1 = (fin, st', w')"
        by (simp add: run_images.simps)
      from Cons.IH [OF Cons.prems(1) t1 this] show ?thesis .
    qed
  qed
qed

text \<open>
  After the user has pressed Cancel, the run enters no further network call and no further
  sleep: if Cancel comes during suspension \<open>c + 1\<close> of the run, the run has at most \<open>c + 1\<close>
  suspensions, however it ends.
\<close>

theorem no_suspension_after_cancel:
  assumes "executeWorkflow provider (Some c) nodes connections images st w = Some (fin, st', w')"
  shows "tick w' \<le> tick w + Suc c"
proof (cases "\<exists>workflow st1 st2.
                run_images \<lparr>backend = provider, signal = Some (tick w + Suc c)\<rparr> images workflow st1 w
                  = (fin, st2, w')")
  case True
  then obtain workflow st1 st2 where
    ri: "run_images \<lparr>backend = provider, signal = Some (tick w + Suc c)\<rparr> images workflow st1 w
           = (fin, st2, w')"
    by blast
  have sig: "signal \<lparr>backend = provider, signal = Some (tick w + Suc c)\<rparr> = Some (tick w + Suc c)"
    by simp
  show ?thesis by (rule run_images_tick [OF sig _ ri]) simp
next
  case False
  with assms have "w' = w"
    by (auto simp: executeWorkflow_def split: option.splits prod.splits if_splits)
  then show ?thesis by simp
qed


lemma on_failure_cancelled:
  assumes "on_failure ex step img st = (Cancelled, st1)"
  shows "logs st1 = logs st \<and> outputs st1 = outputs st \<and> error st1 = error st
         \<and> notification st1 = Some CancelledNotice \<and> message ex = ''Request aborted''"
  using assms by (auto simp: on_failure_def Let_def split: if_splits)

lemma run_steps_none_error:
  "run_steps e img len ss i cur st w = (None, st', w') \<Longrightarrow> error st' = error st"
proof (induction ss arbitrary: i cur st w)
  case Nil
  then show ?case by (simp add: run_steps.simps)
next
  case (Cons step rest)
  obtain x w1 where ed: "editImage e cur (prompt step) w = (x, w1)" by force
  show ?case
  proof (cases x)
    case (Inl ex)
    with Cons.prems run_steps_Cons_bad [of e cur step w ex w1 img len rest i st] ed
    show ?thesis by simp
  next
    case (Inr res)
    from run_steps_Cons_ok [of e cur step w res w1 img len rest i st] ed Inr
    obtain st3 where rs: "run_steps e img len (step # rest) i cur st w
                 = run_steps e img len rest (Suc i) res st3 w1"
      and e3: "error st3 = error st" by auto
    with Cons.prems have "run_steps e img len rest (Suc i) res st3 w1 = (None, st', w')" by simp
    from Cons.IH [OF this] e3 show ?thesis by simp
  qed
qed

lemma run_steps_cancelled_at:
  assumes "run_steps e img len ss i cur st w = (Some Cancelled, st', w')" and "i + length ss = len"
  shows "\<exists>j<length ss.
           logs st' = logs st @ map (success_log img) (take j ss)
         \<and> edits (trace w') = edits (trace w) @ map prompt (take (Suc j) ss)
         \<and> outputs st' = outputs st \<and> error st' = error st
         \<and> notification st' = Some CancelledNotice"
  using assms
proof (induction ss arbitrary: i cur st w)
  case Nil
  then show ?case by (simp add: run_steps.simps)
next
  case (Cons step rest)
  obtain r w1 where ed: "editImage e cur (prompt step) w = (r, w1)" by force
  have ee: "edits (trace w1) = edits (trace w) @ [prompt step]"
    using editImage_edits [OF ed] .
  show ?case
  proof (cases r)
    case (Inl ex)
    let ?st = "during_call w w1 st"
    from Cons.prems(1) run_steps_Cons_bad [of e cur step w ex w1 img len rest i st] ed Inl
    have f: "on_failure ex step img ?st = (Cancelled, st')" and w: "w' = w1"
      by (auto simp: prod_eq_iff)
    from on_failure_cancelled [OF f]
    have "logs st' = logs st" "outputs st' = outputs st" "error st' = error st"
         "notification st' = Some CancelledNotice"
      by simp_all
    then show ?thesis using ee w by (intro exI [of _ 0]) simp
  next
    case (Inr res)
    from run_steps_Cons_ok [of e cur step w res w1 img len rest i st] ed Inr
    obtain st3 where rs: "run_steps e img len (step # rest) i cur st w
                 = run_steps e img len rest (Suc i) res st3 w1"
      and l3: "logs st3 = logs st @ [success_log img step]"
      and o3: "outputs st3 = outputs st
                @ (if Suc i = len
                   then [\<lparr>originalImageId = image_id img, originalFileName = file_name img,
                          out_dataUrl = res\<rparr>]
                   else [])"
      and e3: "error st3 = error st"
      by auto
    have rec: "run_steps e img len rest (Suc i) res st3 w1 = (Some Cancelled, st', w')"
      using Cons.prems(1) rs by simp
    have len: "Suc i + length rest = len" using Cons.prems(2) by simp
    from Cons.IH [OF rec len]
    obtain j where j: "j < length rest"
      and lj: "logs st' = logs st3 @ map (success_log img) (take j rest)"
      and ej: "edits (trace w') = edits (trace w1) @ map prompt (take (Suc j) rest)"
      and oj: "outputs st' = outputs st3" and erj: "error st' = error st3"
      and nj: "notification st' = Some CancelledNotice"
      by blast
    have "Suc i \<noteq> len" using len j by auto
    then have o: "outputs st' = outputs st" using oj o3 by simp
    show ?thesis
      using j lj ej o erj e3 nj l3 ee
      by (intro exI [of _ "Suc j"]) simp
  qed
qed

lemma run_images_cancelled:
  assumes "run_images e images workflow st w = (Cancelled, st', w')"
  shows "\<exists>i j. i < length images \<and> j < length workflow
           \<and> logs st' = logs st
                 @ concat (map (\<lambda>img. map (success_log img) workflow) (take i images))
                 @ map (success_log (images ! i)) (take j workflow)
           \<and> map originalImageId (outputs st')
               = map originalImageId (outputs st) @ map image_id (take i images)
           \<and> edits (trace w')
               = edits (trace w) @ concat (replicate i (map prompt workflow))
                 @ map prompt (take (Suc j) workflow)
           \<and> error st' = error st \<and> notification st' = Some CancelledNotice"
  using assms
proof (induction images arbitrary: st w)
  case Nil
  then show ?case by (simp add: run_images.simps)
next
  case (Cons img rest)
  have na: "\<not> aborted e w" using Cons.prems by (auto simp: run_images.simps split: if_splits)
  obtain r st1 w1 where rs: "run_steps e img (length workflow) workflow 0 (dataUrl img) st w = (r, st1, w1)"
    by (metis prod_cases3)
  show ?case
  proof (cases r)
    case (Some fin)
    with Cons.prems na rs have fin: "fin = Cancelled" "st1 = st'" "w1 = w'"
      by (simp_all add: run_images.simps)
    from run_steps_cancelled_at [of e img "length workflow" workflow 0 "dataUrl img" st w st' w']
      rs Some fin
    obtain j where "j < length workflow"
      "logs st' = logs st @ map (success_log img) (take j workflow)"
      "edits (trace w') = edits (trace w) @ map prompt (take (Suc j) workflow)"
      "outputs st' = outputs st" "error st' = error st" "notification st' = Some CancelledNotice"
      by auto
    then show ?thesis
      by (intro exI [of _ 0] exI [of _ j]) simp
  next
    case None
    with Cons.prems na rs have rec: "run_images e rest workflow st1 w1 = (Cancelled, st', w')"
      by (simp add: run_images.simps)
    from run_steps_none [of e img "length workflow" workflow 0 "dataUrl img" st w st1 w1] rs None
    have l1: "logs st1 = logs st @ map (success_log img) workflow"
      and e1: "edits (trace w1) = edits (trace w) @ map prompt workflow"
      and o1: "map originalImageId (outputs st1)
             = map originalImageId (outputs st) @ (if workflow = [] then [] else [image_id img])"
      by auto
    have er1: "error st1 = error st" using run_steps_none_error rs None by blast
    from Cons.IH [OF rec]
    obtain i j where ij: "i < length rest" "j < length workflow"
      and l: "logs st' = logs st1
                 @ concat (map (\<lambda>img. map (success_log img) workflow) (take i rest))
                 @ map (success_log (rest ! i)) (take j workflow)"
      and o: "map originalImageId (outputs st')
               = map originalImageId (outputs st1) @ map image_id (take i rest)"
      and ed: "edits (trace w')
               = edits (trace w1) @ concat (replicate i (map prompt workflow))
                 @ map prompt (take (Suc j) workflow)"
      and er: "error st' = error st1" and n: "notification st' = Some CancelledNotice"
      by blast
    have ne: "workflow \<noteq> []" using ij by auto
    show ?thesis
      using ij l o ed er n l1 e1 o1 er1 ne
      by (intro exI [of _ "Suc i"] exI [of _ j]) simp
  qed
qed

lemma getExecutionOrder_error:
  "getExecutionOrder nodes connections st = Some (Some workflow, st1) \<Longrightarrow> workflow \<noteq> []
     \<Longrightarrow> error st1 = None"
  by (auto simp: getExecutionOrder_def split: if_splits prod.splits option.splits)

text \<open>
  A run that ends in the cancel branch has set the cancel notification and no error; its log
  is the old log and a success entry for every step completed so far, with no failure entry;
  its outputs are those of the images completed so far; and the cancelled call of
  \<open>editImage\<close> is the last one.
\<close>

theorem cancelled_run_keeps_results:
  assumes "executeWorkflow provider cancel nodes connections images st w = Some (Cancelled, st', w')"
  shows "notification st' = Some CancelledNotice \<and> error st' = None
         \<and> (\<exists>workflow st1 i j.
               getExecutionOrder nodes connections (st\<lparr>error := None\<rparr>) = Some (Some workflow, st1)
               \<and> i < length images \<and> j < length workflow
               \<and> logs st' = logs st
                     @ concat (map (\<lambda>img. map (success_log img) workflow) (take i images))
                     @ map (success_log (images ! i)) (take j workflow)
               \<and> map originalImageId (outputs st') = map image_id (take i images)
               \<and> edits (trace w')
                   = edits (trace w) @ concat (replicate i (map prompt workflow))
                     @ map prompt (take (Suc j) workflow))"
proof -
  obtain workflow st1 where go: "getExecutionOrder nodes connections (st\<lparr>error := None\<rparr>)
                                   = Some (Some workflow, st1)"
    and ne: "workflow \<noteq> []"
    using assms by (auto simp: executeWorkflow_def split: option.splits prod.splits if_splits)
  let ?e = "\<lparr>backend = provider, signal = map_option (\<lambda>c. tick w + Suc c) cancel\<rparr>"
  let ?st = "st1\<lparr>abortController := True, retryInfo := None, isLoading := True, outputs := []\<rparr>"
  obtain st2 where ri: "run_images ?e images workflow ?st w = (Cancelled, st2, w')"
    and st': "st' = st2\<lparr>isLoading := False, abortController := False\<rparr>"
    using assms go by (auto simp: executeWorkflow_def split: option.splits prod.splits if_splits)
  have l1: "logs ?st = logs st" using getExecutionOrder_logs [OF go] by simp
  have e1: "error ?st = None" using getExecutionOrder_error [OF go ne] by simp
  from run_images_cancelled [OF ri] l1 e1 st' go
  show ?thesis by (simp, blast)
qed


lemma sample_cancelled_run:
  "executeWorkflow provider_ok (Some 0) [step_of ''A'', step_of ''B''] [edge ''A'' ''B'']
         [image_of ''x'', image_of ''y''] state0 world0
     = Some (Cancelled,
             state0\<lparr>notification := Some CancelledNotice,
                    logs := [success_log (image_of ''x'') (step_of ''A'')]\<rparr>,
             world0\<lparr>tick := 1,
                    trace := [EditImage ''do A'', Call ''gemini-2.0-flash-preview-image-generation'',
                              EditImage ''do B'']\<rparr>)"
  by code_simp

theorem no_suspension_after_cancel_witness:
  "tick (world0\<lparr>tick := 1,
                trace := [EditImage ''do A'', Call ''gemini-2.0-flash-preview-image-generation'',
                          EditImage ''do B'']\<rparr>) \<le> tick world0 + Suc 0"
  by (rule no_suspension_after_cancel [OF sample_cancelled_run])


theorem cancelled_run_keeps_results_witness:
  "notification (state0\<lparr>notification := Some CancelledNotice,
                        logs := [success_log (image_of ''x'') (step_of ''A'')]\<rparr>)
     = Some CancelledNotice
   \<and> error (state0\<lparr>notification := Some CancelledNotice,
                   logs := [success_log (image_of ''x'') (step_of ''A'')]\<rparr>) = None"
  using cancelled_run_keeps_results [OF sample_cancelled_run] by blast

text \<open>
  C3 when the signal is set during the last call for an image. One step, two images, Cancel
  pressed during the first call: the step of the first image succeeds, and the check before
  the second image throws outside the \<open>try ... catch\<close> of the steps. The call of
  \<open>executeWorkflow\<close> ends with the exception "Request aborted" and no cancel notification.
  (With two steps the same click is seen inside a step and ends the run as cancelled.)
\<close>

theorem cancel_between_images_escapes:
  "executeWorkflow provider_ok (Some 0) [step_of ''A''] [] [image_of ''x'', image_of ''y'']
       state0 world0
     = Some (Rejected (Error ''Request aborted''),
             state0\<lparr>outputs := [\<lparr>originalImageId = ''x'', originalFileName = ''x.png'',
                                  out_dataUrl = ''data:image/png;base64,QUJD''\<rparr>],
                    logs := [success_log (image_of ''x'') (step_of ''A'')]\<rparr>,
             world0\<lparr>tick := 1,
                    trace := [EditImage ''do A'', Call ''gemini-2.0-flash-preview-image-generation'']\<rparr>)
   \<and> executeWorkflow provider_ok (Some 0) [step_of ''A'', step_of ''B''] [edge ''A'' ''B'']
         [image_of ''x'', image_of ''y''] state0 world0
     = Some (Cancelled,
             state0\<lparr>notification := Some CancelledNotice,
                    logs := [success_log (image_of ''x'') (step_of ''A'')]\<rparr>,
             world0\<lparr>tick := 1,
                    trace := [EditImage ''do A'', Call ''gemini-2.0-flash-preview-image-generation'',
                              EditImage ''do B'']\<rparr>)"
  by code_simp


section \<open>Properties of the scheduler\<close>

subsection \<open>The maps and the loop on a chain\<close>

lemma links_fst: "(a, b) \<in> set (links xs) \<Longrightarrow> a \<in> set (butlast xs)"
  by (induction xs rule: links.induct) auto

lemma links_snd: "(a, b) \<in> set (links xs) \<Longrightarrow> b \<in> set (tl xs)"
  by (induction xs rule: links.induct) auto

lemma links_append: "links (xs @ y # ys) = links (xs @ [y]) @ links (y # ys)"
  by (induction xs rule: links.induct) simp_all

lemma links_nth: "(a, b) \<in> set (links xs) \<Longrightarrow> \<exists>i. Suc i < length xs \<and> xs ! i = a \<and> xs ! Suc i = b"
proof (induction xs rule: links.induct)
  case (1 x y zs)
  show ?case
  proof (cases "(a, b) = (x, y)")
    case True
    then show ?thesis by (intro exI [of _ 0]) simp
  next
    case False
    with 1 obtain i where "Suc i < length (y # zs)" "(y # zs) ! i = a" "(y # zs) ! Suc i = b"
      by auto
    then show ?thesis by (intro exI [of _ "Suc i"]) simp
  qed
qed simp_all

lemma filter_none: "(\<And>x. x \<in> set xs \<Longrightarrow> \<not> P x) \<Longrightarrow> filter P xs = []"
  by (induction xs) auto

lemma links_fst': "p \<in> set (links xs) \<Longrightarrow> fst p \<in> set (butlast xs)"
  by (cases p) (simp add: links_fst)

lemma links_snd': "p \<in> set (links xs) \<Longrightarrow> snd p \<in> set (tl xs)"
  by (cases p) (simp add: links_snd)

lemma tl_subset: "x \<in> set (tl xs) \<Longrightarrow> x \<in> set xs"
  by (cases xs) auto

lemma links_from:
  assumes "distinct (pre @ u # v # post)"
  shows "filter (\<lambda>p. fst p = u) (links (pre @ u # v # post)) = [(u, v)]"
proof -
  have a: "filter (\<lambda>p. fst p = u) (links (pre @ [u])) = []"
  proof (rule filter_none)
    fix p assume "p \<in> set (links (pre @ [u]))"
    from links_fst' [OF this] have "fst p \<in> set pre" by simp
    with assms show "fst p \<noteq> u" by auto
  qed
  have b: "filter (\<lambda>p. fst p = u) (links (v # post)) = []"
  proof (rule filter_none)
    fix p assume "p \<in> set (links (v # post))"
    from links_fst' [OF this] have "fst p \<in> set (v # post)" by (rule in_set_butlastD)
    with assms show "fst p \<noteq> u" by auto
  qed
  have "links (pre @ u # v # post) = links (pre @ [u]) @ links (u # v # post)"
    by (rule links_append)
  then show ?thesis by (simp add: a b)
qed

lemma links_from_last:
  assumes "distinct (pre @ [u])"
  shows "filter (\<lambda>p. fst p = u) (links (pre @ [u])) = []"
proof (rule filter_none)
  fix p assume "p \<in> set (links (pre @ [u]))"
  from links_fst' [OF this] have "fst p \<in> set pre" by simp
  with assms show "fst p \<noteq> u" by auto
qed

lemma links_to:
  assumes "distinct (pre @ u # v # post)"
  shows "filter (\<lambda>p. snd p = v) (links (pre @ u # v # post)) = [(u, v)]"
proof -
  have a: "filter (\<lambda>p. snd p = v) (links (pre @ [u])) = []"
  proof (rule filter_none)
    fix p assume "p \<in> set (links (pre @ [u]))"
    from links_snd' [OF this] have "snd p \<in> set (pre @ [u])" by (rule tl_subset)
    with assms show "snd p \<noteq> v" by auto
  qed
  have b: "filter (\<lambda>p. snd p = v) (links (v # post)) = []"
  proof (rule filter_none)
    fix p assume "p \<in> set (links (v # post))"
    from links_snd' [OF this] have "snd p \<in> set post" by simp
    with assms show "snd p \<noteq> v" by auto
  qed
  have "links (pre @ u # v # post) = links (pre @ [u]) @ links (u # v # post)"
    by (rule links_append)
  then show ?thesis by (simp add: a b)
qed

lemma links_to_head:
  assumes "distinct (u # post)"
  shows "filter (\<lambda>p. snd p = u) (links (u # post)) = []"
proof (rule filter_none)
  fix p assume "p \<in> set (links (u # post))"
  from links_snd' [OF this] have "snd p \<in> set post" by simp
  with assms show "snd p \<noteq> u" by auto
qed


lemma endpoints_simps [simp]: "fst (endpoints c) = fromNodeId c" "snd (endpoints c) = toNodeId c"
  by (simp_all add: endpoints_def)

lemma add_node_pair:
  "add_node n (a, d) = (a(node_id n \<mapsto> []), d(node_id n \<mapsto> 0))"
  by (simp add: add_node_def)

lemma add_connection_pair:
  "add_connection c (a, d)
     = ((case a (fromNodeId c) of None \<Rightarrow> a | Some vs \<Rightarrow> a(fromNodeId c \<mapsto> vs @ [toNodeId c])),
        d(toNodeId c \<mapsto> (case d (toNodeId c) of None \<Rightarrow> 0 | Some k \<Rightarrow> k) + 1))"
  by (simp add: add_connection_def)

lemma fold_add_node:
  "fold add_node nodes (a, d)
     = ((\<lambda>u. if u \<in> node_id ` set nodes then Some [] else a u),
        (\<lambda>u. if u \<in> node_id ` set nodes then Some 0 else d u))"
proof (induction nodes arbitrary: a d)
  case Nil
  show ?case by simp
next
  case (Cons n ns)
  show ?case by (simp add: add_node_pair Cons.IH) (auto simp: fun_eq_iff)
qed

lemma fold_add_connection_adj:
  "fst (fold add_connection conns (a, d)) u
     = (case a u of None \<Rightarrow> None
        | Some vs \<Rightarrow> Some (vs @ map snd (filter (\<lambda>p. fst p = u) (map endpoints conns))))"
proof (induction conns arbitrary: a d)
  case Nil
  show ?case by (simp split: option.splits)
next
  case (Cons c cs)
  show ?case
    by (simp add: add_connection_pair Cons.IH split: option.splits)
qed

lemma fold_add_connection_deg:
  "snd (fold add_connection conns (a, d)) v
     = (if filter (\<lambda>p. snd p = v) (map endpoints conns) = [] then d v
        else Some ((case d v of None \<Rightarrow> 0 | Some k \<Rightarrow> k)
                   + length (filter (\<lambda>p. snd p = v) (map endpoints conns))))"
proof (induction conns arbitrary: a d)
  case Nil
  show ?case by simp
next
  case (Cons c cs)
  show ?case
    by (simp add: add_connection_pair Cons.IH split: option.splits)
qed


lemma filter_transfer:
  assumes "mset xs = mset ys"
  shows "filter P ys = [] \<Longrightarrow> filter P xs = []"
    and "filter P ys = [y] \<Longrightarrow> filter P xs = [y]"
proof -
  have m: "mset (filter P xs) = mset (filter P ys)" using assms by simp
  show "filter P ys = [] \<Longrightarrow> filter P xs = []" using m by simp
  show "filter P ys = [y] \<Longrightarrow> filter P xs = [y]" using m by (simp del: mset_filter)
qed

lemma nodeMap_skip:
  "k \<notin> node_id ` set ns \<Longrightarrow> fold (\<lambda>n m. m(node_id n \<mapsto> n)) ns m k = m k"
  by (induction ns arbitrary: m) auto

lemma nodeMap_distinct:
  "distinct (map node_id ns) \<Longrightarrow> x \<in> set ns
     \<Longrightarrow> fold (\<lambda>n m. m(node_id n \<mapsto> n)) ns m (node_id x) = Some x"
proof (induction ns arbitrary: m)
  case Nil
  then show ?case by simp
next
  case (Cons n ns)
  show ?case
  proof (cases "x = n")
    case True
    have "fold (\<lambda>n m. m(node_id n \<mapsto> n)) ns (m(node_id n \<mapsto> n)) (node_id n)
            = (m(node_id n \<mapsto> n)) (node_id n)"
      using Cons.prems by (intro nodeMap_skip) simp
    with True show ?thesis by (simp only: fold_simps o_apply fun_upd_same)
  next
    case False
    with Cons.prems have "distinct (map node_id ns)" "x \<in> set ns" by simp_all
    from Cons.IH [OF this] show ?thesis by simp
  qed
qed

lemma filter_single:
  "distinct xs \<Longrightarrow> x \<in> set xs \<Longrightarrow> (\<And>y. y \<in> set xs \<Longrightarrow> P y \<longleftrightarrow> y = x) \<Longrightarrow> filter P xs = [x]"
proof (induction xs)
  case Nil
  then show ?case by simp
next
  case (Cons a xs)
  show ?case
  proof (cases "a = x")
    case True
    have "filter P xs = []" using Cons.prems True by (intro filter_none) auto
    with True Cons.prems show ?thesis by simp
  next
    case False
    with Cons show ?thesis by auto
  qed
qed

lemma chain_maps:
  assumes sc: "single_chain chain nodes connections"
      and gm: "graph_maps nodes connections = (adj, inDegree)"
  shows "map node_id chain = pre @ u # v # post \<Longrightarrow> adj u = Some [v] \<and> inDegree v = Some 1"
    and "map node_id chain = pre @ [u] \<Longrightarrow> adj u = Some []"
    and "map node_id chain = u # post \<Longrightarrow> inDegree u = Some 0"
proof -
  let ?ids = "map node_id chain" and ?E = "map endpoints connections"
  have d: "distinct ?ids" and mn: "mset nodes = mset chain" and me: "mset ?E = mset (links ?ids)"
    using sc by (simp_all add: single_chain_def)
  have sn: "node_id ` set nodes = set ?ids" using mset_eq_setD [OF mn] by simp
  define a0 :: "string \<rightharpoonup> string list" where "a0 = (\<lambda>u. if u \<in> set ?ids then Some [] else None)"
  define d0 :: "string \<rightharpoonup> nat" where "d0 = (\<lambda>u. if u \<in> set ?ids then Some 0 else None)"
  have g: "fold add_connection connections (a0, d0) = (adj, inDegree)"
    using gm unfolding graph_maps_def fold_add_node a0_def d0_def sn by simp
  have adj: "adj x = (if x \<in> set ?ids then Some (map snd (filter (\<lambda>p. fst p = x) ?E)) else None)" for x
  proof -
    have "adj x = fst (fold add_connection connections (a0, d0)) x" using g by simp
    also have "\<dots> = (case a0 x of None \<Rightarrow> None
        | Some vs \<Rightarrow> Some (vs @ map snd (filter (\<lambda>p. fst p = x) ?E)))"
      by (rule fold_add_connection_adj)
    finally show ?thesis by (simp add: a0_def)
  qed
  have deg: "inDegree x = Some (length (filter (\<lambda>p. snd p = x) ?E))" if "x \<in> set ?ids" for x
  proof -
    have "inDegree x = snd (fold add_connection connections (a0, d0)) x" using g by simp
    also have "\<dots> = (if filter (\<lambda>p. snd p = x) ?E = [] then d0 x
        else Some ((case d0 x of None \<Rightarrow> 0 | Some k \<Rightarrow> k) + length (filter (\<lambda>p. snd p = x) ?E)))"
      by (rule fold_add_connection_deg)
    finally have "inDegree x = (if filter (\<lambda>p. snd p = x) ?E = [] then Some 0
        else Some (length (filter (\<lambda>p. snd p = x) ?E)))"
      using that by (simp add: d0_def del: filter_map)
    then show ?thesis by (cases "filter (\<lambda>p. snd p = x) ?E = []") (simp_all del: filter_map)
  qed
  {
    assume ids: "?ids = pre @ u # v # post"
    have "filter (\<lambda>p. fst p = u) ?E = [(u, v)]"
      using filter_transfer(2) [OF me] links_from [of pre u v post] d ids by simp
    moreover have "filter (\<lambda>p. snd p = v) ?E = [(u, v)]"
      using filter_transfer(2) [OF me] links_to [of pre u v post] d ids by simp
    ultimately show "adj u = Some [v] \<and> inDegree v = Some 1"
      using adj [of u] deg [of v] ids by simp
  }
  {
    assume ids: "?ids = pre @ [u]"
    have "filter (\<lambda>p. fst p = u) ?E = []"
      using filter_transfer(1) [OF me] links_from_last [of pre u] d ids by simp
    then show "adj u = Some []" using adj [of u] ids by simp
  }
  {
    assume ids: "?ids = u # post"
    have "filter (\<lambda>p. snd p = u) ?E = []"
      using filter_transfer(1) [OF me] links_to_head [of u post] d ids by simp
    then show "inDegree u = Some 0" using deg [of u] ids by simp
  }
qed


lemma kahn_chain:
  assumes d: "distinct (map node_id chain)"
      and nm: "\<And>x. x \<in> set chain \<Longrightarrow> nm (node_id x) = Some x"
      and A: "\<And>pre u v post. map node_id chain = pre @ u # v # post \<Longrightarrow> adj u = Some [v]"
      and B: "\<And>pre u. map node_id chain = pre @ [u] \<Longrightarrow> adj u = Some []"
  shows "chain = pre @ c # rest \<Longrightarrow> (\<And>x. x \<in> set rest \<Longrightarrow> inDegree (node_id x) = Some 1)
         \<Longrightarrow> kahn_loop nm adj inDegree [node_id c] s = Some (s @ c # rest)"
proof (induction rest arbitrary: pre c inDegree s)
  case Nil
  have a: "adj (node_id c) = Some []" using B [of "map node_id pre" "node_id c"] Nil.prems(1) by simp
  have n: "nm (node_id c) = Some c" using nm Nil.prems(1) by simp
  show ?case
    by (subst kahn_loop.simps, simp add: a n, subst kahn_loop.simps, simp)
next
  case (Cons c' rest)
  have a: "adj (node_id c) = Some [node_id c']"
    using A [of "map node_id pre" "node_id c" "node_id c'" "map node_id rest"] Cons.prems(1) by simp
  have n: "nm (node_id c) = Some c" using nm Cons.prems(1) by simp
  have one: "inDegree (node_id c') = Some 1" using Cons.prems(2) by simp
  let ?deg = "inDegree(node_id c' \<mapsto> 0)"
  have r: "relax (node_id c') (inDegree, []) = (?deg, [node_id c'])"
    using one by (simp add: relax_def)
  have ch: "chain = (pre @ [c]) @ c' # rest" using Cons.prems(1) by simp
  have rest1: "\<And>x. x \<in> set rest \<Longrightarrow> ?deg (node_id x) = Some 1"
  proof -
    fix x assume x: "x \<in> set rest"
    have "node_id x \<in> node_id ` set rest" using x by simp
    moreover have "node_id c' \<notin> node_id ` set rest" using d unfolding ch by simp
    ultimately have "node_id x \<noteq> node_id c'" by auto
    then show "?deg (node_id x) = Some 1" using Cons.prems(2) x by simp
  qed
  have "kahn_loop nm adj inDegree [node_id c] s = kahn_loop nm adj ?deg [node_id c'] (s @ [c])"
    by (subst kahn_loop.simps) (simp add: a n r)
  also have "\<dots> = Some ((s @ [c]) @ c' # rest)"
    by (rule Cons.IH [where inDegree = ?deg, OF ch rest1])
  finally show ?case by simp
qed

lemma pred_decomp: "y \<in> set (tl xs) \<Longrightarrow> \<exists>pre u post. xs = pre @ u # y # post"
proof -
  assume y: "y \<in> set (tl xs)"
  then obtain x0 xs' where xs: "xs = x0 # xs'" by (cases xs) auto
  with y obtain ys zs where s: "xs' = ys @ y # zs" by (auto simp: in_set_conv_decomp)
  show ?thesis
  proof (cases "ys = []")
    case True
    then have "xs = [] @ x0 # y # zs" using xs s by simp
    then show ?thesis by blast
  next
    case False
    then have "ys = butlast ys @ [last ys]" by simp
    then have "xs = (x0 # butlast ys) @ last ys # y # zs"
      using xs s by (metis append.assoc append_Cons append_Nil)
    then show ?thesis by blast
  qed
qed

text \<open>
  C1. For an acyclic, connected single-chain graph, \<open>getExecutionOrder\<close> returns (the loop
  ends), and the list it returns is the chain: a permutation of all steps, as long as the
  step list, in which the source of every edge comes before its target.
\<close>

theorem chain_order:
  assumes sc: "single_chain chain nodes connections"
  shows "\<exists>st'. getExecutionOrder nodes connections st = Some (Some chain, st')
           \<and> mset chain = mset nodes \<and> length chain = length nodes
           \<and> (\<forall>c \<in> set connections. \<exists>i j. i < j \<and> j < length chain
                  \<and> node_id (chain ! i) = fromNodeId c \<and> node_id (chain ! j) = toNodeId c)"
proof -
  let ?ids = "map node_id chain" and ?E = "map endpoints connections"
  have d: "distinct ?ids" and mn: "mset nodes = mset chain" and me: "mset ?E = mset (links ?ids)"
    using sc by (simp_all add: single_chain_def)
  have len: "length chain = length nodes" using mset_eq_length [OF mn] by simp
  have edges: "\<forall>c \<in> set connections. \<exists>i j. i < j \<and> j < length chain
                  \<and> node_id (chain ! i) = fromNodeId c \<and> node_id (chain ! j) = toNodeId c"
  proof
    fix c assume "c \<in> set connections"
    then have "endpoints c \<in> set ?E" by simp
    then have "(fromNodeId c, toNodeId c) \<in> set (links ?ids)"
      using mset_eq_setD [OF me] by (simp add: endpoints_def)
    from links_nth [OF this] obtain i where "Suc i < length ?ids" "?ids ! i = fromNodeId c"
      "?ids ! Suc i = toNodeId c" by blast
    then show "\<exists>i j. i < j \<and> j < length chain
                  \<and> node_id (chain ! i) = fromNodeId c \<and> node_id (chain ! j) = toNodeId c"
      by (intro exI [of _ i] exI [of _ "Suc i"]) simp
  qed
  show ?thesis
  proof (cases chain)
    case Nil
    then have "nodes = []" using mn by simp
    then show ?thesis using Nil edges by (simp add: getExecutionOrder_def)
  next
    case (Cons c0 rest)
    then have ne: "nodes \<noteq> []" using mn by auto
    obtain adj inDegree where gm: "graph_maps nodes connections = (adj, inDegree)" by force
    note cm = chain_maps [OF sc gm]
    have dn: "distinct (map node_id nodes)"
      using d mn mset_eq_imp_distinct_iff [of "map node_id nodes" "map node_id chain"] by simp
    then have dnodes: "distinct nodes" by (simp add: distinct_map)
    have sn: "set nodes = set chain" using mset_eq_setD [OF mn] .
    have nm: "\<And>x. x \<in> set chain \<Longrightarrow> nodeMap nodes (node_id x) = Some x"
      unfolding nodeMap_def using nodeMap_distinct [OF dn] sn by simp
    have one: "\<And>x. x \<in> set rest \<Longrightarrow> inDegree (node_id x) = Some 1"
    proof -
      fix x assume "x \<in> set rest"
      then have "x \<in> set (tl chain)" using Cons by simp
      from pred_decomp [OF this] obtain pre u post where "chain = pre @ u # x # post" by blast
      then have "?ids = map node_id pre @ node_id u # node_id x # map node_id post" by simp
      from cm(1) [OF this] show "inDegree (node_id x) = Some 1" by simp
    qed
    have zero: "inDegree (node_id c0) = Some 0" using cm(3) [of "node_id c0" "map node_id rest"] Cons by simp
    have q: "initial_queue nodes inDegree = [node_id c0]"
    proof -
      have "filter (\<lambda>node. inDegree (node_id node) = Some 0) nodes = [c0]"
      proof (rule filter_single [OF dnodes])
        show "c0 \<in> set nodes" using sn Cons by simp
      next
        fix y assume "y \<in> set nodes"
        then have "y = c0 \<or> y \<in> set rest" using sn Cons by simp
        then show "(inDegree (node_id y) = Some 0) = (y = c0)"
          using zero one [of y] d Cons by auto
      qed
      then show ?thesis by (simp add: initial_queue_def)
    qed
    have A: "\<And>pre u v post. ?ids = pre @ u # v # post \<Longrightarrow> adj u = Some [v]"
      using cm(1) by blast
    have k: "kahn_loop (nodeMap nodes) adj inDegree [node_id c0] [] = Some ([] @ c0 # rest)"
    proof (rule kahn_chain [where chain = chain and pre = "[]"])
      show "distinct ?ids" by (rule d)
      show "\<And>x. x \<in> set chain \<Longrightarrow> nodeMap nodes (node_id x) = Some x" by (rule nm)
      show "\<And>pre u v post. ?ids = pre @ u # v # post \<Longrightarrow> adj u = Some [v]" by (rule A)
      show "\<And>pre u. ?ids = pre @ [u] \<Longrightarrow> adj u = Some []" by (rule cm(2))
      show "chain = [] @ c0 # rest" using Cons by simp
      show "\<And>x. x \<in> set rest \<Longrightarrow> inDegree (node_id x) = Some 1" by (rule one)
    qed
    have "getExecutionOrder nodes connections st = Some (Some chain, st\<lparr>error := None\<rparr>)"
      using ne gm q k len Cons by (simp add: getExecutionOrder_def)
    then show ?thesis using mn len edges by simp
  qed
qed


theorem chain_order_witness:
  "single_chain [step_of ''A'', step_of ''B'', step_of ''C'']
                [step_of ''C'', step_of ''A'', step_of ''B''] [edge ''B'' ''C'', edge ''A'' ''B'']
   \<and> (\<exists>st'. getExecutionOrder [step_of ''C'', step_of ''A'', step_of ''B'']
                [edge ''B'' ''C'', edge ''A'' ''B''] state0
              = Some (Some [step_of ''A'', step_of ''B'', step_of ''C''], st'))"
proof -
  have sc: "single_chain [step_of ''A'', step_of ''B'', step_of ''C'']
                [step_of ''C'', step_of ''A'', step_of ''B''] [edge ''B'' ''C'', edge ''A'' ''B'']"
    by (simp add: single_chain_def step_of_def edge_def endpoints_def)
  from chain_order [OF sc, of state0] sc show ?thesis by blast
qed

subsection \<open>The queue is first in, first out\<close>














subsection \<open>A step without edges\<close>

text \<open>
  C2 on a graph with a disconnected extra step. The steps A, B, C with the single edge A to B:
  C has in-degree zero, so it is queued at the start and the order A, C, B has the length of
  the step list. No error is set, and the run calls the provider once for each of the three
  steps. (A cycle, A to B and B to A, is refused before any call.)
\<close>

theorem isolated_step_passes_validation:
  "getExecutionOrder [step_of ''A'', step_of ''B'', step_of ''C''] [edge ''A'' ''B''] state0
     = Some (Some [step_of ''A'', step_of ''C'', step_of ''B''], state0)
   \<and> calls (trace (snd (snd (the (executeWorkflow provider_ok None
             [step_of ''A'', step_of ''B'', step_of ''C''] [edge ''A'' ''B''] [image_of ''x'']
             state0 world0)))))
       = [''gemini-2.0-flash-preview-image-generation'',
          ''gemini-2.0-flash-preview-image-generation'',
          ''gemini-2.0-flash-preview-image-generation'']
   \<and> executeWorkflow provider_ok None [step_of ''A'', step_of ''B'']
         [edge ''A'' ''B'', edge ''B'' ''A''] [image_of ''x''] state0 world0
       = Some (NotStarted, state0\<lparr>error := Some cycle_message\<rparr>, world0)"
  by code_simp


end
